theory Spec2Isabelle
  imports Main "HOL-Library.Word"
begin

unbundle bit_operations_syntax

section \<open>Native types, status codes and the exceptions of the extension modules\<close>

text \<open>
  The Windows module is compiled for a 64-bit interpreter here (\<open>_WIN64\<close>): \<open>SIZE_T\<close> and
  \<open>ULONG_PTR\<close> are 64-bit words, \<open>DWORD\<close>, \<open>ULONG\<close> and \<open>NTSTATUS\<close> are 32-bit words and
  \<open>USHORT\<close> is a 16-bit word. A process handle is an opaque number.
\<close>

type_synonym DWORD = "32 word"
type_synonym ULONG = "32 word"
type_synonym USHORT = "16 word"
type_synonym NTSTATUS = "32 word"
type_synonym SIZE_T = "64 word"
type_synonym HANDLE = nat

text \<open>
  The numeric values below are those of the Windows SDK headers (\<open>ntstatus.h\<close>,
  \<open>winerror.h\<close>, \<open>winbase.h\<close>); \<open>NT_SUCCESS\<close> is the SDK macro \<open>((NTSTATUS)(s)) >= 0\<close>
  on the signed reading of the status.
\<close>

definition NT_SUCCESS :: "NTSTATUS \<Rightarrow> bool" where
  "NT_SUCCESS status = (0 \<le> sint status)"

definition STATUS_INFO_LENGTH_MISMATCH :: NTSTATUS where
  "STATUS_INFO_LENGTH_MISMATCH = 0xC0000004"

definition STATUS_ACCESS_DENIED :: NTSTATUS where
  "STATUS_ACCESS_DENIED = 0xC0000022"

definition ERROR_ACCESS_DENIED :: DWORD where
  "ERROR_ACCESS_DENIED = 5"

definition ERROR_INVALID_PARAMETER :: DWORD where
  "ERROR_INVALID_PARAMETER = 87"

definition WAIT_OBJECT_0 :: DWORD where
  "WAIT_OBJECT_0 = 0"

definition WAIT_ABANDONED :: DWORD where
  "WAIT_ABANDONED = 0x80"

definition WAIT_TIMEOUT :: DWORD where
  "WAIT_TIMEOUT = 0x102"

definition WAIT_FAILED :: DWORD where
  "WAIT_FAILED = 0xFFFFFFFF"

text \<open>
  The Python exception a C function leaves set when it returns \<open>NULL\<close> (or a non-zero
  status). \<open>OSErrnoWithSyscall\<close> is what \<open>PyErr_SetFromOSErrnoWithSyscall\<close> sets (the
  \<open>errno\<close> or \<open>GetLastError()\<close> value and the syscall name), \<open>WindowsErr\<close> what
  \<open>PyErr_SetFromWindowsErr(0)\<close> sets, \<open>NTStatusErr\<close> what \<open>psutil_SetFromNTStatusErr\<close> sets.
  \<open>NoExceptionSet\<close> is a \<open>NULL\<close> return with no exception set.
\<close>

datatype pyerr =
    NoSuchProcess string
  | AccessDenied string
  | OSErrnoWithSyscall int string
  | WindowsErr DWORD
  | NTStatusErr NTSTATUS string
  | NoMemory
  | RuntimeError string
  | TimeoutExpired string
  | TimeoutAbandoned string
  | NoExceptionSet

section \<open>Windows: working-set query and unique set size\<close>

text \<open>
  Modelled from the spec: the declaration of \<open>MEMORY_WORKING_SET_BLOCK\<close>, the type of one
  entry of \<open>MEMORY_WORKING_SET_INFORMATION.WorkingSetInfo\<close>, is in a header that is not
  among the sources. The spec's working-set entry has a share count and a "shared" flag;
  these are the two fields the code reads.
\<close>

record MEMORY_WORKING_SET_BLOCK =
  Shared :: bool
  ShareCount :: nat

text \<open>
  The \<open>while\<close> loop of \<open>psutil_GetProcWsetInformation\<close>. \<open>NtQueryVirtualMemory n size\<close> is
  the native answer to the \<open>n\<close>-th call, made with a buffer of \<open>size\<close> bytes: a status and
  the table written to the buffer. \<open>malloc_ok size\<close> says whether \<open>MALLOC_ZERO(size)\<close>
  returns a buffer. \<open>allocs\<close> collects every size passed to \<open>MALLOC_ZERO\<close>, in order.
  The loop is only partially defined: nothing in its body excludes \<open>bufferSize = 0\<close>, from
  where doubling makes no progress.
\<close>

partial_function (option) wset_loop ::
  "(nat \<Rightarrow> SIZE_T \<Rightarrow> NTSTATUS \<times> MEMORY_WORKING_SET_BLOCK list) \<Rightarrow> (SIZE_T \<Rightarrow> bool) \<Rightarrow>
   nat \<Rightarrow> SIZE_T \<Rightarrow> SIZE_T list \<Rightarrow>
   (SIZE_T list \<times> (pyerr + NTSTATUS \<times> MEMORY_WORKING_SET_BLOCK list)) option" where
  "wset_loop NtQueryVirtualMemory malloc_ok n bufferSize allocs =
     (case NtQueryVirtualMemory n bufferSize of (status, table) \<Rightarrow>
        if status = STATUS_INFO_LENGTH_MISMATCH then
          (let bufferSize' = bufferSize * 2 in
           if bufferSize' > 256 * 1024 * 1024 then
             Some (allocs, Inl (RuntimeError ''NtQueryVirtualMemory bufsize is too large''))
           else if \<not> malloc_ok bufferSize' then
             Some (allocs @ [bufferSize'], Inl NoMemory)
           else
             wset_loop NtQueryVirtualMemory malloc_ok (Suc n) bufferSize'
               (allocs @ [bufferSize']))
        else Some (allocs, Inr (status, table)))"

declare wset_loop.simps [code]

text \<open>
  \<open>psutil_GetProcWsetInformation\<close>: first buffer of \<open>0x8000\<close> bytes, the loop, then the
  classification of a failing status. \<open>pid_is_running\<close> is the answer of
  \<open>psutil_pid_is_running(pid)\<close>, whose code is in another file: \<open>Inr False\<close> for 0,
  \<open>Inr True\<close> for 1 and \<open>Inl e\<close> for -1 with the exception \<open>e\<close> set.
\<close>

definition psutil_GetProcWsetInformation ::
  "(nat \<Rightarrow> SIZE_T \<Rightarrow> NTSTATUS \<times> MEMORY_WORKING_SET_BLOCK list) \<Rightarrow> (SIZE_T \<Rightarrow> bool) \<Rightarrow>
   (pyerr + bool) \<Rightarrow> (SIZE_T list \<times> (pyerr + MEMORY_WORKING_SET_BLOCK list)) option" where
  "psutil_GetProcWsetInformation NtQueryVirtualMemory malloc_ok pid_is_running =
     (if \<not> malloc_ok 0x8000 then Some ([0x8000], Inl NoMemory)
      else
        case wset_loop NtQueryVirtualMemory malloc_ok 0 0x8000 [0x8000] of
          None \<Rightarrow> None
        | Some (allocs, Inl e) \<Rightarrow> Some (allocs, Inl e)
        | Some (allocs, Inr (status, table)) \<Rightarrow>
            if \<not> NT_SUCCESS status then
              (if status = STATUS_ACCESS_DENIED then
                 Some (allocs,
                   Inl (AccessDenied ''NtQueryVirtualMemory -> STATUS_ACCESS_DENIED''))
               else if pid_is_running = Inr False then
                 Some (allocs, Inl (NoSuchProcess ''psutil_pid_is_running -> 0''))
               else
                 Some (allocs, Inl (NTStatusErr status
                   ''NtQueryVirtualMemory(MemoryWorkingSetInformation)'')))
            else Some (allocs, Inr table))"

text \<open>
  The \<open>for\<close> loop of \<open>psutil_proc_memory_uss\<close> over the entries of the table, with the
  counter \<open>wsCounters.NumberOfPrivatePages\<close> (a \<open>SIZE_T\<close>) as accumulator.
\<close>

fun uss_loop :: "MEMORY_WORKING_SET_BLOCK list \<Rightarrow> SIZE_T \<Rightarrow> SIZE_T" where
  "uss_loop [] NumberOfPrivatePages = NumberOfPrivatePages"
| "uss_loop (e # es) NumberOfPrivatePages =
     (if \<not> Shared e \<or> ShareCount e \<le> 1
      then uss_loop es (NumberOfPrivatePages + 1)
      else uss_loop es NumberOfPrivatePages)"

text \<open>
  \<open>psutil_proc_memory_uss\<close>. \<open>handle_from_pid\<close> is the answer of
  \<open>psutil_handle_from_pid(pid, PROCESS_QUERY_INFORMATION)\<close>, whose code is in another file.
  \<open>Py_BuildValue("I", ...)\<close> reads the counter as an \<open>unsigned int\<close>.
\<close>

definition psutil_proc_memory_uss ::
  "(pyerr + HANDLE) \<Rightarrow> (nat \<Rightarrow> SIZE_T \<Rightarrow> NTSTATUS \<times> MEMORY_WORKING_SET_BLOCK list) \<Rightarrow>
   (SIZE_T \<Rightarrow> bool) \<Rightarrow> (pyerr + bool) \<Rightarrow> (pyerr + 32 word) option" where
  "psutil_proc_memory_uss handle_from_pid NtQueryVirtualMemory malloc_ok pid_is_running =
     (case handle_from_pid of
        Inl e \<Rightarrow> Some (Inl e)
      | Inr hProcess \<Rightarrow>
          (case psutil_GetProcWsetInformation NtQueryVirtualMemory malloc_ok pid_is_running of
             None \<Rightarrow> None
           | Some (allocs, Inl e) \<Rightarrow> Some (Inl e)
           | Some (allocs, Inr wsInfo) \<Rightarrow> Some (Inr (ucast (uss_loop wsInfo 0)))))"

section \<open>Windows: kill, wait, times\<close>

text \<open>
  The native and helper calls a per-process operation makes, in order. An operation returns
  this list next to its outcome.
\<close>

datatype call =
    Call_OpenProcess
  | Call_check_phandle
  | Call_handle_from_pid
  | Call_pid_is_running
  | Call_TerminateProcess
  | Call_WaitForSingleObject
  | Call_GetExitCodeProcess
  | Call_GetProcessTimes
  | Call_CloseHandle
  | Call_MALLOC_ZERO nat
  | Call_FREE
  | Call_NtQuerySystemInformation nat
  | Call_CreateToolhelp32Snapshot
  | Call_Thread32First
  | Call_Thread32Next
  | Call_OpenThread DWORD
  | Call_GetThreadTimes DWORD
  | Call_sysctl_KERN_PROCARGS2
  | Call_pid_exists

text \<open>
  \<open>psutil_proc_kill\<close>. \<open>OpenProcess\<close> is the answer of
  \<open>OpenProcess(PROCESS_TERMINATE, FALSE, pid)\<close>: \<open>Inr h\<close> for a handle, \<open>Inl code\<close> for
  \<open>NULL\<close> with \<open>GetLastError() = code\<close>. \<open>check_phandle\<close> stands for
  \<open>psutil_check_phandle(hProcess, pid, 0)\<close>, whose code is in another file: it gets the
  answer of \<open>OpenProcess\<close> and returns the handle, or \<open>NULL\<close> with an exception set.
  \<open>TerminateProcess\<close> is \<open>Inr ()\<close> when the call succeeds and \<open>Inl code\<close> when it
  returns 0 with \<open>GetLastError() = code\<close>. The early return after a failing
  \<open>TerminateProcess\<close> does not close the handle.
\<close>

definition psutil_proc_kill ::
  "(DWORD + HANDLE) \<Rightarrow> ((DWORD + HANDLE) \<Rightarrow> pyerr + HANDLE) \<Rightarrow> (DWORD + unit) \<Rightarrow> DWORD \<Rightarrow>
   call list \<times> (pyerr + unit)" where
  "psutil_proc_kill OpenProcess check_phandle TerminateProcess pid =
     (if pid = 0 then ([], Inl (AccessDenied ''automatically set for PID 0''))
      else
        case check_phandle OpenProcess of
          Inl e \<Rightarrow> ([Call_OpenProcess, Call_check_phandle], Inl e)
        | Inr hProcess \<Rightarrow>
            (case TerminateProcess of
               Inl code \<Rightarrow>
                 if code \<noteq> ERROR_ACCESS_DENIED then
                   ([Call_OpenProcess, Call_check_phandle, Call_TerminateProcess],
                    Inl (OSErrnoWithSyscall (uint code) ''TerminateProcess''))
                 else
                   ([Call_OpenProcess, Call_check_phandle, Call_TerminateProcess,
                     Call_CloseHandle], Inr ())
             | Inr _ \<Rightarrow>
                 ([Call_OpenProcess, Call_check_phandle, Call_TerminateProcess,
                   Call_CloseHandle], Inr ())))"

text \<open>
  \<open>psutil_proc_wait\<close>. \<open>WaitForSingleObject timeout\<close> is the value the native wait
  returns, \<open>wait_error\<close> the value of \<open>GetLastError()\<close> after it returned \<open>WAIT_FAILED\<close>,
  \<open>GetExitCodeProcess\<close> is \<open>Inr code\<close> or \<open>Inl\<close> of the last error. The result
  \<open>Inr None\<close> is Python's \<open>None\<close>; an exit code is returned as \<open>(long) ExitCode\<close>, and
  \<open>long\<close> has 32 bits on Windows, so it is the signed reading of the \<open>DWORD\<close>.
\<close>

definition psutil_proc_wait ::
  "(DWORD + HANDLE) \<Rightarrow> (32 word \<Rightarrow> DWORD) \<Rightarrow> DWORD \<Rightarrow> (DWORD + DWORD) \<Rightarrow> DWORD \<Rightarrow> 32 word \<Rightarrow>
   call list \<times> (pyerr + int option)" where
  "psutil_proc_wait OpenProcess WaitForSingleObject wait_error GetExitCodeProcess pid timeout =
     (if pid = 0 then ([], Inl (AccessDenied ''automatically set for PID 0''))
      else
        case OpenProcess of
          Inl code \<Rightarrow>
            if code = ERROR_INVALID_PARAMETER then ([Call_OpenProcess], Inr None)
            else ([Call_OpenProcess], Inl (OSErrnoWithSyscall (uint code) ''OpenProcess''))
        | Inr hProcess \<Rightarrow>
            (let retVal = WaitForSingleObject timeout in
             if retVal = WAIT_FAILED then
               ([Call_OpenProcess, Call_WaitForSingleObject, Call_CloseHandle],
                Inl (OSErrnoWithSyscall (uint wait_error) ''WaitForSingleObject''))
             else if retVal = WAIT_TIMEOUT then
               ([Call_OpenProcess, Call_WaitForSingleObject, Call_CloseHandle],
                Inl (TimeoutExpired ''WaitForSingleObject() returned WAIT_TIMEOUT''))
             else if retVal = WAIT_ABANDONED then
               ([Call_OpenProcess, Call_WaitForSingleObject, Call_CloseHandle],
                Inl (TimeoutAbandoned ''WaitForSingleObject() returned WAIT_ABANDONED''))
             else
               (case GetExitCodeProcess of
                  Inl code \<Rightarrow>
                    ([Call_OpenProcess, Call_WaitForSingleObject, Call_GetExitCodeProcess,
                      Call_CloseHandle],
                     Inl (OSErrnoWithSyscall (uint code) ''GetExitCodeProcess''))
                | Inr ExitCode \<Rightarrow>
                    ([Call_OpenProcess, Call_WaitForSingleObject, Call_GetExitCodeProcess,
                      Call_CloseHandle],
                     Inr (Some (sint ExitCode))))))"

text \<open>
  \<open>psutil_proc_times\<close>. \<open>handle_from_pid\<close> is the answer of
  \<open>psutil_handle_from_pid(pid, PROCESS_QUERY_LIMITED_INFORMATION)\<close>. \<open>GetProcessTimes\<close> is
  \<open>Inr (ftCreate, ftExit, ftKernel, ftUser)\<close> or \<open>Inl\<close> of the last error. The conversion
  of the three returned times to \<open>double\<close> is left out: the result carries the
  \<open>FILETIME\<close> values of user, kernel and creation time.
\<close>

record FILETIME =
  dwLowDateTime :: DWORD
  dwHighDateTime :: DWORD


section \<open>Windows: executable path\<close>

text \<open>
  What one call of \<open>NtQuerySystemInformation(SystemProcessIdInformation, ...)\<close> leaves:
  the status, and the fields of \<open>processIdInfo.ImageName\<close> after the call.
  \<open>nt_Buffer\<close> is \<open>None\<close> when the \<open>Buffer\<close> pointer is \<open>NULL\<close>, and otherwise the wide
  characters in the buffer.
\<close>

record nt_answer =
  nt_status :: NTSTATUS
  nt_MaximumLength :: USHORT
  nt_Length :: USHORT
  nt_Buffer :: "16 word list option"

text \<open>
  The \<open>do ... while\<close> loop of \<open>psutil_proc_exe\<close>. \<open>NtQuerySystemInformation n ml size\<close> is
  the answer to the \<open>n\<close>-th call, made with \<open>ImageName.MaximumLength = ml\<close> and a buffer
  of \<open>size\<close> bytes. \<open>bufferSize\<close> is a \<open>ULONG\<close> and \<open>MaximumLength\<close> its truncation to
  \<open>USHORT\<close>. \<open>tr\<close> is the list of calls made so far.
\<close>

partial_function (option) exe_double_loop ::
  "(nat \<Rightarrow> USHORT \<Rightarrow> nat \<Rightarrow> nt_answer) \<Rightarrow> (nat \<Rightarrow> bool) \<Rightarrow> nat \<Rightarrow> ULONG \<Rightarrow> call list \<Rightarrow>
   (call list \<times> (pyerr + nt_answer)) option" where
  "exe_double_loop NtQuerySystemInformation malloc_ok n bufferSize tr =
     (let bufferSize' = bufferSize * 2;
          tr1 = tr @ [Call_FREE, Call_MALLOC_ZERO (unat bufferSize')]
      in
        if \<not> malloc_ok (unat bufferSize') then Some (tr1, Inl NoMemory)
        else
          (let MaximumLength = (ucast bufferSize' :: USHORT);
               ans = NtQuerySystemInformation n MaximumLength (unat bufferSize');
               tr2 = tr1 @ [Call_NtQuerySystemInformation (unat MaximumLength)]
           in
             if nt_status ans = STATUS_INFO_LENGTH_MISMATCH \<and> bufferSize' \<le> 0x7FFF * 2
             then exe_double_loop NtQuerySystemInformation malloc_ok (Suc n) bufferSize' tr2
             else Some (tr2, Inr ans)))"

declare exe_double_loop.simps [code]

text \<open>
  The three-way branch of \<open>psutil_proc_exe\<close> after the first query: the doubling loop, the
  single retry with the reported size, or nothing.
\<close>

definition exe_resize ::
  "(nat \<Rightarrow> USHORT \<Rightarrow> nat \<Rightarrow> nt_answer) \<Rightarrow> (nat \<Rightarrow> bool) \<Rightarrow> ULONG \<Rightarrow> nt_answer \<Rightarrow> call list \<Rightarrow>
   (call list \<times> (pyerr + nt_answer)) option" where
  "exe_resize NtQuerySystemInformation malloc_ok bufferSize ans tr =
     (if nt_status ans = STATUS_INFO_LENGTH_MISMATCH
         \<and> (ucast (nt_MaximumLength ans) :: ULONG) \<le> bufferSize then
        exe_double_loop NtQuerySystemInformation malloc_ok 1 bufferSize tr
      else if nt_status ans = STATUS_INFO_LENGTH_MISMATCH then
        (let size = unat (nt_MaximumLength ans);
             tr1 = tr @ [Call_FREE, Call_MALLOC_ZERO size]
         in
           if \<not> malloc_ok size then Some (tr1, Inl NoMemory)
           else
             Some (tr1 @ [Call_NtQuerySystemInformation size],
                   Inr (NtQuerySystemInformation 1 (nt_MaximumLength ans) size)))
      else Some (tr, Inr ans))"

text \<open>
  \<open>psutil_proc_exe\<close>. The result is the image name as wide characters:
  \<open>ImageName.Length / 2\<close> characters of the buffer, or the empty string when the buffer
  pointer is \<open>NULL\<close>.
\<close>

definition psutil_proc_exe ::
  "(nat \<Rightarrow> USHORT \<Rightarrow> nat \<Rightarrow> nt_answer) \<Rightarrow> (nat \<Rightarrow> bool) \<Rightarrow> (pyerr + bool) \<Rightarrow> DWORD \<Rightarrow>
   (call list \<times> (pyerr + 16 word list)) option" where
  "psutil_proc_exe NtQuerySystemInformation malloc_ok pid_is_running pid =
     (if pid = 0 then Some ([], Inl (AccessDenied ''automatically set for PID 0''))
      else
        (let bufferSize = (0x104 * 2 :: ULONG) in
         if \<not> malloc_ok (unat bufferSize) then
           Some ([Call_MALLOC_ZERO (unat bufferSize)], Inl NoMemory)
         else
           (let MaximumLength = (ucast bufferSize :: USHORT);
                ans = NtQuerySystemInformation 0 MaximumLength (unat bufferSize);
                tr = [Call_MALLOC_ZERO (unat bufferSize),
                      Call_NtQuerySystemInformation (unat MaximumLength)]
            in
              case exe_resize NtQuerySystemInformation malloc_ok bufferSize ans tr of
                None \<Rightarrow> None
              | Some (tr', Inl e) \<Rightarrow> Some (tr', Inl e)
              | Some (tr', Inr ans') \<Rightarrow>
                  if \<not> NT_SUCCESS (nt_status ans') then
                    (if pid_is_running = Inr False then
                       Some (tr' @ [Call_FREE, Call_pid_is_running],
                             Inl (NoSuchProcess ''psutil_pid_is_running -> 0''))
                     else
                       Some (tr' @ [Call_FREE, Call_pid_is_running],
                             Inl (NTStatusErr (nt_status ans') ''NtQuerySystemInformation'')))
                  else
                    (case nt_Buffer ans' of
                       None \<Rightarrow> Some (tr' @ [Call_FREE], Inr [])
                     | Some chars \<Rightarrow>
                         Some (tr' @ [Call_FREE],
                               Inr (take (unat (nt_Length ans') div 2) chars))))))"

section \<open>Windows: threads\<close>

record THREADENTRY32 =
  th32ThreadID :: DWORD
  th32OwnerProcessID :: DWORD

text \<open>
  The \<open>do ... while (Thread32Next(...))\<close> walk of \<open>psutil_proc_threads\<close> over the entries
  of the snapshot. \<open>OpenThread tid\<close> is \<open>None\<close> when the thread cannot be opened;
  \<open>GetThreadTimes tid\<close> is \<open>Inr (ftKernel, ftUser)\<close> or \<open>Inl\<close> of the last error. An
  element of the result is the thread id with its user and kernel time.
\<close>

fun threads_loop ::
  "(DWORD \<Rightarrow> HANDLE option) \<Rightarrow> (DWORD \<Rightarrow> DWORD + FILETIME \<times> FILETIME) \<Rightarrow> DWORD \<Rightarrow>
   THREADENTRY32 list \<Rightarrow> call list \<Rightarrow> (DWORD \<times> FILETIME \<times> FILETIME) list \<Rightarrow>
   call list \<times> (pyerr + (DWORD \<times> FILETIME \<times> FILETIME) list)" where
  "threads_loop OpenThread GetThreadTimes pid [] tr py_retlist = (tr, Inr py_retlist)"
| "threads_loop OpenThread GetThreadTimes pid (te32 # rest) tr py_retlist =
     (if th32OwnerProcessID te32 = pid then
        (case OpenThread (th32ThreadID te32) of
           None \<Rightarrow>
             threads_loop OpenThread GetThreadTimes pid rest
               (tr @ [Call_OpenThread (th32ThreadID te32), Call_Thread32Next]) py_retlist
         | Some hThread \<Rightarrow>
             (case GetThreadTimes (th32ThreadID te32) of
                Inl code \<Rightarrow>
                  (tr @ [Call_OpenThread (th32ThreadID te32),
                         Call_GetThreadTimes (th32ThreadID te32),
                         Call_CloseHandle, Call_CloseHandle],
                   Inl (OSErrnoWithSyscall (uint code) ''GetThreadTimes''))
              | Inr (ftKernel, ftUser) \<Rightarrow>
                  threads_loop OpenThread GetThreadTimes pid rest
                    (tr @ [Call_OpenThread (th32ThreadID te32),
                           Call_GetThreadTimes (th32ThreadID te32),
                           Call_CloseHandle, Call_Thread32Next])
                    (py_retlist @ [(th32ThreadID te32, ftUser, ftKernel)])))
      else
        threads_loop OpenThread GetThreadTimes pid rest (tr @ [Call_Thread32Next]) py_retlist)"

text \<open>
  \<open>psutil_proc_threads\<close>. \<open>CreateToolhelp32Snapshot\<close> is \<open>Inr entries\<close> for a snapshot
  with these thread entries and \<open>Inl code\<close> for \<open>INVALID_HANDLE_VALUE\<close>;
  \<open>Thread32First\<close> fails, with last error \<open>first_error\<close>, on a snapshot without entries.
\<close>

definition psutil_proc_threads ::
  "(pyerr + bool) \<Rightarrow> (DWORD + THREADENTRY32 list) \<Rightarrow> DWORD \<Rightarrow> (DWORD \<Rightarrow> HANDLE option) \<Rightarrow>
   (DWORD \<Rightarrow> DWORD + FILETIME \<times> FILETIME) \<Rightarrow> DWORD \<Rightarrow>
   call list \<times> (pyerr + (DWORD \<times> FILETIME \<times> FILETIME) list)" where
  "psutil_proc_threads pid_is_running CreateToolhelp32Snapshot first_error OpenThread
       GetThreadTimes pid =
     (if pid = 0 then ([], Inl (AccessDenied ''forced for PID 0''))
      else
        case pid_is_running of
          Inr False \<Rightarrow>
            ([Call_pid_is_running], Inl (NoSuchProcess ''psutil_pid_is_running -> 0''))
        | Inl e \<Rightarrow> ([Call_pid_is_running], Inl e)
        | Inr True \<Rightarrow>
            (case CreateToolhelp32Snapshot of
               Inl code \<Rightarrow>
                 ([Call_pid_is_running, Call_CreateToolhelp32Snapshot, Call_CloseHandle],
                  Inl (OSErrnoWithSyscall (uint code) ''CreateToolhelp32Snapshot''))
             | Inr entries \<Rightarrow>
                 if entries = [] then
                   ([Call_pid_is_running, Call_CreateToolhelp32Snapshot, Call_Thread32First,
                     Call_CloseHandle],
                    Inl (OSErrnoWithSyscall (uint first_error) ''Thread32First''))
                 else
                   (case threads_loop OpenThread GetThreadTimes pid entries
                           [Call_pid_is_running, Call_CreateToolhelp32Snapshot,
                            Call_Thread32First] [] of
                      (tr, Inl e) \<Rightarrow> (tr, Inl e)
                    | (tr, Inr py_retlist) \<Rightarrow> (tr @ [Call_CloseHandle], Inr py_retlist))))"

section \<open>macOS: process list\<close>

text \<open>The \<open>errno\<close> values of \<open>sys/errno.h\<close> the code compares with.\<close>

definition EIO :: int where
  "EIO = 5"

definition ENOMEM :: int where
  "ENOMEM = 12"

definition EINVAL :: int where
  "EINVAL = 22"

text \<open>\<open>sizeof(kinfo_proc)\<close> on 64-bit macOS.\<close>

definition sizeof_kinfo_proc :: SIZE_T where
  "sizeof_kinfo_proc = 648"

datatype sysctl_call =
    Sysctl_size
  | Malloc SIZE_T
  | Sysctl_data SIZE_T
  | Free

text \<open>
  The allocation of one round of \<open>psutil_get_proc_list\<close>: \<open>size + (size >> 3)\<close> bytes if
  that does not wrap around and can be had, else \<open>size\<close> bytes. The result is the size of
  the buffer obtained (\<open>None\<close> for \<open>ptr == NULL\<close>) and the \<open>malloc\<close> calls made.
\<close>

definition get_proc_list_alloc ::
  "(SIZE_T \<Rightarrow> bool) \<Rightarrow> SIZE_T \<Rightarrow> SIZE_T option \<times> sysctl_call list" where
  "get_proc_list_alloc malloc_ok sz =
     (let sz2 = sz + drop_bit 3 sz in
      if sz2 > sz then
        (if malloc_ok sz2 then (Some sz2, [Malloc sz2])
         else if malloc_ok sz then (Some sz, [Malloc sz2, Malloc sz])
         else (None, [Malloc sz2, Malloc sz]))
      else if malloc_ok sz then (Some sz, [Malloc sz])
      else (None, [Malloc sz]))"

text \<open>
  The \<open>while (lim-- > 0)\<close> loop. In round \<open>n\<close>, \<open>sysctl_size n\<close> is the answer of the call
  with \<open>ptr == NULL\<close> (\<open>Inr size\<close>, or \<open>Inl errno\<close> for -1), \<open>malloc_ok n\<close> tells which
  allocations succeed and \<open>sysctl_data n size\<close> is the answer of the call with a buffer of
  \<open>size\<close> bytes (\<open>Inr\<close> of the size written, or \<open>Inl errno\<close>). A success returns the
  size written and \<open>*procCount\<close>. The test \<open>procCount <= 0\<close> in the source compares the
  pointer \<open>procCount\<close>, which was dereferenced on entry, so it never holds.
\<close>

function get_proc_list_loop ::
  "(nat \<Rightarrow> int + SIZE_T) \<Rightarrow> (nat \<Rightarrow> SIZE_T \<Rightarrow> bool) \<Rightarrow> (nat \<Rightarrow> SIZE_T \<Rightarrow> int + SIZE_T) \<Rightarrow>
   int \<Rightarrow> nat \<Rightarrow> sysctl_call list \<Rightarrow> sysctl_call list \<times> (pyerr + SIZE_T \<times> SIZE_T)" where
  "get_proc_list_loop sysctl_size malloc_ok sysctl_data lim n tr =
     (if lim > 0 then
        (case sysctl_size n of
           Inl err \<Rightarrow>
             (tr @ [Sysctl_size], Inl (OSErrnoWithSyscall err ''sysctl(KERN_PROC_ALL)''))
         | Inr sz \<Rightarrow>
             (case get_proc_list_alloc (malloc_ok n) sz of
                (None, mallocs) \<Rightarrow> (tr @ [Sysctl_size] @ mallocs, Inl NoMemory)
              | (Some sz', mallocs) \<Rightarrow>
                  (case sysctl_data n sz' of
                     Inl err \<Rightarrow>
                       if err \<noteq> ENOMEM then
                         (tr @ [Sysctl_size] @ mallocs @ [Sysctl_data sz', Free],
                          Inl (OSErrnoWithSyscall err ''sysctl(KERN_PROC_ALL)''))
                       else
                         get_proc_list_loop sysctl_size malloc_ok sysctl_data (lim - 1) (Suc n)
                           (tr @ [Sysctl_size] @ mallocs @ [Sysctl_data sz', Free])
                   | Inr written \<Rightarrow>
                       (tr @ [Sysctl_size] @ mallocs @ [Sysctl_data sz'],
                        Inr (written, written div sizeof_kinfo_proc)))))
      else (tr, Inl (RuntimeError ''couldn't collect PIDs list'')))"
  by pat_completeness auto
termination
  by (relation "measure (\<lambda>(sysctl_size, malloc_ok, sysctl_data, lim, n, tr). nat lim)") auto

declare get_proc_list_loop.simps [simp del]

definition psutil_get_proc_list ::
  "(nat \<Rightarrow> int + SIZE_T) \<Rightarrow> (nat \<Rightarrow> SIZE_T \<Rightarrow> bool) \<Rightarrow> (nat \<Rightarrow> SIZE_T \<Rightarrow> int + SIZE_T) \<Rightarrow>
   sysctl_call list \<times> (pyerr + SIZE_T \<times> SIZE_T)" where
  "psutil_get_proc_list sysctl_size malloc_ok sysctl_data =
     get_proc_list_loop sysctl_size malloc_ok sysctl_data 8 0 []"

section \<open>macOS: argument space of a process\<close>

text \<open>
  \<open>psutil_sysctl_argmax\<close>: \<open>sysctl\<close> is \<open>Inr argmax\<close> when the call returns 0 and
  \<open>Inl errno\<close> otherwise. The result is the \<open>int\<close> returned and the exception set.
\<close>

definition psutil_sysctl_argmax :: "(int + int) \<Rightarrow> int \<times> pyerr option" where
  "psutil_sysctl_argmax sysctl =
     (case sysctl of
        Inr argmax \<Rightarrow> (argmax, None)
      | Inl err \<Rightarrow> (0, Some (OSErrnoWithSyscall err ''sysctl(KERN_ARGMAX)'')))"

text \<open>
  \<open>psutil_sysctl_procargs\<close>. \<open>sysctl\<close> is the answer of the \<open>KERN_PROCARGS2\<close> call:
  \<open>Inl errno\<close> when it returns a negative value, else \<open>Inr (procargs, argmax)\<close> with the
  bytes of the whole allocated buffer after the call and the length the kernel stored in
  \<open>*argmax\<close>. \<open>pid_exists\<close> stands for \<open>psutil_pid_exists(pid)\<close>, whose code is in another
  file: given the current \<open>errno\<close> it returns its result and the \<open>errno\<close> it leaves, which
  is what the two tests after it read.
\<close>

type_synonym byte = "8 word"

definition psutil_sysctl_procargs ::
  "(int + byte list \<times> nat) \<Rightarrow> (int \<Rightarrow> int \<times> int) \<Rightarrow> call list \<times> (pyerr + byte list \<times> nat)" where
  "psutil_sysctl_procargs sysctl pid_exists =
     (case sysctl of
        Inr (procargs, argmax) \<Rightarrow> ([Call_sysctl_KERN_PROCARGS2], Inr (procargs, argmax))
      | Inl err \<Rightarrow>
          (case pid_exists err of (exists, errno) \<Rightarrow>
             if exists = 0 then
               ([Call_sysctl_KERN_PROCARGS2, Call_pid_exists],
                Inl (NoSuchProcess ''psutil_pid_exists -> 0''))
             else if errno = EINVAL then
               ([Call_sysctl_KERN_PROCARGS2, Call_pid_exists],
                Inl (NoSuchProcess ''sysctl(KERN_PROCARGS2) -> EINVAL''))
             else if errno = EIO then
               ([Call_sysctl_KERN_PROCARGS2, Call_pid_exists],
                Inl (AccessDenied ''sysctl(KERN_PROCARGS2) -> EIO''))
             else
               ([Call_sysctl_KERN_PROCARGS2, Call_pid_exists],
                Inl (OSErrnoWithSyscall errno ''sysctl(KERN_PROCARGS2)''))))"

section \<open>macOS: decoding the argument space\<close>

text \<open>
  \<open>procargs\<close> is the allocated buffer, a list of bytes; \<open>argmax\<close> (\<open>arg_end\<close> as an index)
  is the length the kernel declared, and pointers into the buffer are indices. A read at
  an index outside the list is outside the allocation, which C leaves undefined: the
  helpers below return \<open>None\<close> there. Each of them also returns the read mark: one more
  than the highest index of \<open>procargs\<close> read so far.
\<close>

definition peek :: "byte list \<Rightarrow> nat \<Rightarrow> byte option" where
  "peek procargs i = (if i < length procargs then Some (procargs ! i) else None)"

text \<open>\<open>memcpy(&nargs, procargs, sizeof(nargs))\<close>: a little-endian \<open>int\<close>.\<close>

definition read_nargs :: "byte list \<Rightarrow> int option" where
  "read_nargs procargs =
     (if 4 \<le> length procargs then
        Some (sint (word_of_nat (unat (procargs ! 0) + 256 * unat (procargs ! 1)
                 + 65536 * unat (procargs ! 2) + 16777216 * unat (procargs ! 3)) :: 32 word))
      else None)"

text \<open>The bytes of the C string at index \<open>p\<close>, and \<open>strlen\<close> of it.\<close>

definition c_string :: "byte list \<Rightarrow> nat \<Rightarrow> byte list" where
  "c_string procargs p = takeWhile (\<lambda>c. c \<noteq> 0) (drop p procargs)"

definition strlen :: "byte list \<Rightarrow> nat \<Rightarrow> nat option" where
  "strlen procargs p =
     (if 0 \<in> set (drop p procargs) then Some (length (c_string procargs p)) else None)"

text \<open>
  \<open>memchr(procargs + p, '\0', n)\<close>: the read mark of the scan and the index found
  (\<open>None\<close> for \<open>NULL\<close>).
\<close>

definition memchr0 :: "byte list \<Rightarrow> nat \<Rightarrow> nat \<Rightarrow> (nat \<times> nat option) option" where
  "memchr0 procargs p n =
     (let seg = take n (drop p procargs) in
      if 0 \<in> set seg then
        (let s = p + length (takeWhile (\<lambda>c. c \<noteq> 0) seg) in Some (Suc s, Some s))
      else if p + n \<le> length procargs then Some (if n = 0 then 0 else p + n, None)
      else None)"

text \<open>The loop "skip ahead to the first argument", the same in both decoders.\<close>

function skip_nuls :: "byte list \<Rightarrow> nat \<Rightarrow> nat \<Rightarrow> nat \<Rightarrow> (nat \<times> nat) option" where
  "skip_nuls procargs arg_end arg_ptr hi =
     (if arg_ptr < arg_end then
        (case peek procargs arg_ptr of
           None \<Rightarrow> None
         | Some c \<Rightarrow>
             if c \<noteq> 0 then Some (max hi (Suc arg_ptr), arg_ptr)
             else skip_nuls procargs arg_end (Suc arg_ptr) (max hi (Suc arg_ptr)))
      else Some (hi, arg_ptr))"
  by pat_completeness auto
termination
  by (relation "measure (\<lambda>(procargs, arg_end, arg_ptr, hi). arg_end - arg_ptr)") auto

declare skip_nuls.simps [simp del]

text \<open>
  The loop "iterate through arguments" of \<open>psutil_proc_cmdline\<close>.
  \<open>PyUnicode_DecodeFSDefault(curr_arg)\<close> reads the C string at \<open>curr_arg\<close>; an argument is
  kept as its bytes.
\<close>

function cmdline_loop ::
  "byte list \<Rightarrow> nat \<Rightarrow> nat \<Rightarrow> nat \<Rightarrow> int \<Rightarrow> byte list list \<Rightarrow> nat \<Rightarrow>
   (nat \<times> byte list list) option" where
  "cmdline_loop procargs arg_end arg_ptr curr_arg nargs py_retlist hi =
     (if arg_ptr < arg_end \<and> nargs > 0 then
        (case peek procargs arg_ptr of
           None \<Rightarrow> None
         | Some c \<Rightarrow>
             if c = 0 then
               cmdline_loop procargs arg_end (Suc arg_ptr) (Suc arg_ptr) (nargs - 1)
                 (py_retlist @ [c_string procargs curr_arg])
                 (max (max hi (Suc arg_ptr))
                      (Suc (curr_arg + length (c_string procargs curr_arg))))
             else
               cmdline_loop procargs arg_end (Suc arg_ptr) curr_arg nargs py_retlist
                 (max hi (Suc arg_ptr)))
      else Some (hi, py_retlist))"
  by pat_completeness auto
termination
  by (relation "measure (\<lambda>(procargs, arg_end, arg_ptr, curr_arg, nargs, py_retlist, hi).
        arg_end - arg_ptr)") auto

declare cmdline_loop.simps [simp del]

text \<open>
  The outcome of a decoder: a value, an exception, or a read outside an allocated buffer.
\<close>

datatype 'a returned = Returns 'a | Raises pyerr | Overread

text \<open>
  The part of \<open>psutil_proc_cmdline\<close> after \<open>psutil_sysctl_procargs\<close> has filled the
  buffer. The result is the read mark on \<open>procargs\<close> and the outcome.
\<close>

definition cmdline_decode :: "byte list \<Rightarrow> nat \<Rightarrow> nat \<times> byte list list returned" where
  "cmdline_decode procargs argmax =
     (case read_nargs procargs of
        None \<Rightarrow> (Suc (length procargs), Overread)
      | Some nargs \<Rightarrow>
          (case strlen procargs 4 of
             None \<Rightarrow> (Suc (length procargs), Overread)
           | Some len \<Rightarrow>
               (let arg_ptr = 4 + len + 1 in
                if arg_ptr = argmax then (arg_ptr, Returns [])
                else
                  case skip_nuls procargs argmax arg_ptr arg_ptr of
                    None \<Rightarrow> (Suc (length procargs), Overread)
                  | Some (hi, arg_ptr') \<Rightarrow>
                      (case cmdline_loop procargs argmax arg_ptr' arg_ptr' nargs [] hi of
                         None \<Rightarrow> (Suc (length procargs), Overread)
                       | Some (hi', py_retlist) \<Rightarrow> (hi', Returns py_retlist)))))"

text \<open>
  \<open>psutil_proc_cmdline\<close>. \<open>sysctl_argmax\<close> and \<open>sysctl_procargs\<close> are the answers of the two
  \<open>sysctl\<close> calls, \<open>malloc_ok\<close> tells whether \<open>malloc(argmax)\<close> succeeds. The \<open>int\<close>
  returned by \<open>psutil_sysctl_argmax\<close> is converted to \<open>size_t\<close>.
\<close>

definition psutil_proc_cmdline ::
  "(int + int) \<Rightarrow> (nat \<Rightarrow> bool) \<Rightarrow> (int + byte list \<times> nat) \<Rightarrow> (int \<Rightarrow> int \<times> int) \<Rightarrow> int \<Rightarrow>
   nat \<times> byte list list returned" where
  "psutil_proc_cmdline sysctl_argmax malloc_ok sysctl_procargs pid_exists pid =
     (if pid = 0 then (0, Returns [])
      else
        case psutil_sysctl_argmax sysctl_argmax of (ret, exc) \<Rightarrow>
          (let argmax = nat (ret mod 2 ^ 64) in
           if argmax = 0 then
             (0, Raises (case exc of None \<Rightarrow> NoExceptionSet | Some e \<Rightarrow> e))
           else if \<not> malloc_ok argmax then (0, Raises NoMemory)
           else
             case snd (psutil_sysctl_procargs sysctl_procargs pid_exists) of
               Inl e \<Rightarrow> (0, Raises e)
             | Inr (procargs, argmax') \<Rightarrow> cmdline_decode procargs argmax'))"

text \<open>The loop "iterate through arguments" of \<open>psutil_proc_environ\<close>.\<close>

function environ_skip_args ::
  "byte list \<Rightarrow> nat \<Rightarrow> nat \<Rightarrow> int \<Rightarrow> nat \<Rightarrow> (nat \<times> nat) option" where
  "environ_skip_args procargs arg_end arg_ptr nargs hi =
     (if arg_ptr < arg_end \<and> nargs > 0 then
        (case peek procargs arg_ptr of
           None \<Rightarrow> None
         | Some c \<Rightarrow>
             if c = 0 then
               environ_skip_args procargs arg_end (Suc arg_ptr) (nargs - 1)
                 (max hi (Suc arg_ptr))
             else
               environ_skip_args procargs arg_end (Suc arg_ptr) nargs (max hi (Suc arg_ptr)))
      else Some (hi, arg_ptr))"
  by pat_completeness auto
termination
  by (relation "measure (\<lambda>(procargs, arg_end, arg_ptr, nargs, hi). arg_end - arg_ptr)") auto

declare environ_skip_args.simps [simp del]

text \<open>\<open>memcpy(procenv + off, src, n)\<close> on the list \<open>procenv\<close>.\<close>

definition memcpy_at :: "byte list \<Rightarrow> nat \<Rightarrow> byte list \<Rightarrow> byte list" where
  "memcpy_at procenv off src = take off procenv @ src @ drop (off + length src) procenv"

text \<open>
  The loop of \<open>psutil_proc_environ\<close> that builds the environment block. Its condition
  reads \<open>*arg_ptr\<close> before it compares \<open>arg_ptr\<close> with \<open>arg_end\<close>, and its \<open>memchr\<close> scans
  \<open>arg_end - arg_ptr\<close> bytes from \<open>arg_ptr + 1\<close>. The result is the read mark, the final
  \<open>arg_ptr\<close> and the block.
\<close>

function environ_copy ::
  "byte list \<Rightarrow> nat \<Rightarrow> nat \<Rightarrow> nat \<Rightarrow> byte list \<Rightarrow> nat \<Rightarrow> (nat \<times> nat \<times> byte list) option" where
  "environ_copy procargs arg_end env_start arg_ptr procenv hi =
     (case peek procargs arg_ptr of
        None \<Rightarrow> None
      | Some c \<Rightarrow>
          if c \<noteq> 0 \<and> arg_ptr < arg_end then
            (case memchr0 procargs (Suc arg_ptr) (arg_end - arg_ptr) of
               None \<Rightarrow> None
             | Some (hi', None) \<Rightarrow> Some (max (max hi (Suc arg_ptr)) hi', arg_ptr, procenv)
             | Some (hi', Some s) \<Rightarrow>
                 environ_copy procargs arg_end env_start (Suc s)
                   (memcpy_at procenv (arg_ptr - env_start)
                      (take (s - arg_ptr) (drop arg_ptr procargs)))
                   (max (max hi (Suc arg_ptr)) hi'))
          else Some (max hi (Suc arg_ptr), arg_ptr, procenv))"
  by pat_completeness auto
termination
  by (relation "measure (\<lambda>(procargs, arg_end, env_start, arg_ptr, procenv, hi).
        Suc arg_end - arg_ptr)") (auto simp: memchr0_def Let_def split: if_splits)

declare environ_copy.simps [simp del]

text \<open>
  The difference of two pointers into the buffer, converted to \<open>size_t\<close>.
\<close>

definition ptr_diff :: "nat \<Rightarrow> nat \<Rightarrow> nat" where
  "ptr_diff a b = (if b \<le> a then a - b else 2 ^ 64 - (b - a))"

text \<open>
  The part of \<open>psutil_proc_environ\<close> after \<open>psutil_sysctl_procargs\<close> has filled the
  buffer. \<open>calloc_ok n\<close> tells whether \<open>calloc(1, n)\<close> returns a buffer. The value returned
  is the environment block as bytes.
\<close>

definition environ_decode ::
  "(nat \<Rightarrow> bool) \<Rightarrow> byte list \<Rightarrow> nat \<Rightarrow> nat \<times> byte list returned" where
  "environ_decode calloc_ok procargs argmax =
     (case read_nargs procargs of
        None \<Rightarrow> (Suc (length procargs), Overread)
      | Some nargs \<Rightarrow>
          (case memchr0 procargs 4 (ptr_diff argmax 4) of
             None \<Rightarrow> (Suc (length procargs), Overread)
           | Some (hi0, None) \<Rightarrow> (max 4 hi0, Returns [])
           | Some (hi0, Some arg_ptr) \<Rightarrow>
               if arg_ptr = argmax then (max 4 hi0, Returns [])
               else
                 (case skip_nuls procargs argmax arg_ptr (max 4 hi0) of
                    None \<Rightarrow> (Suc (length procargs), Overread)
                  | Some (hi1, arg_ptr1) \<Rightarrow>
                      (case environ_skip_args procargs argmax arg_ptr1 nargs hi1 of
                         None \<Rightarrow> (Suc (length procargs), Overread)
                       | Some (hi2, env_start) \<Rightarrow>
                           if \<not> calloc_ok (ptr_diff argmax env_start) then
                             (hi2, Raises NoMemory)
                           else
                             (case environ_copy procargs argmax env_start env_start
                                     (replicate (ptr_diff argmax env_start) 0) hi2 of
                                None \<Rightarrow> (Suc (length procargs), Overread)
                              | Some (hi3, arg_ptr3, procenv) \<Rightarrow>
                                  if arg_ptr3 - env_start + 1 \<le> length procenv then
                                    (hi3, Returns (take (arg_ptr3 - env_start + 1) procenv))
                                  else (hi3, Overread))))))"

definition psutil_proc_environ ::
  "(int + int) \<Rightarrow> (nat \<Rightarrow> bool) \<Rightarrow> (int + byte list \<times> nat) \<Rightarrow> (int \<Rightarrow> int \<times> int) \<Rightarrow>
   (nat \<Rightarrow> bool) \<Rightarrow> int \<Rightarrow> nat \<times> byte list returned" where
  "psutil_proc_environ sysctl_argmax malloc_ok sysctl_procargs pid_exists calloc_ok pid =
     (if pid = 0 then (0, Returns [])
      else
        case psutil_sysctl_argmax sysctl_argmax of (ret, exc) \<Rightarrow>
          (let argmax = nat (ret mod 2 ^ 64) in
           if argmax = 0 then
             (0, Raises (case exc of None \<Rightarrow> NoExceptionSet | Some e \<Rightarrow> e))
           else if \<not> malloc_ok argmax then (0, Raises NoMemory)
           else
             case snd (psutil_sysctl_procargs sysctl_procargs pid_exists) of
               Inl e \<Rightarrow> (0, Raises e)
             | Inr (procargs, argmax') \<Rightarrow> environ_decode calloc_ok procargs argmax'))"

text \<open>
  The sizes the working-set query asks for when every answer is "too small": \<open>0x8000\<close>,
  doubled each time.
\<close>

definition wset_sizes :: "nat \<Rightarrow> nat list" where
  "wset_sizes len = map (\<lambda>i. 0x8000 * 2 ^ i) [0..<len]"

text \<open>
  Counting the two \<open>sysctl\<close> calls in the calls of \<open>psutil_get_proc_list\<close>, and a round
  in which the size probe succeeds, every allocation succeeds and the data fetch fails
  with \<open>ENOMEM\<close>.
\<close>

fun is_Sysctl_size :: "sysctl_call \<Rightarrow> bool" where
  "is_Sysctl_size Sysctl_size = True"
| "is_Sysctl_size _ = False"

fun is_Sysctl_data :: "sysctl_call \<Rightarrow> bool" where
  "is_Sysctl_data (Sysctl_data _) = True"
| "is_Sysctl_data _ = False"

definition round_ENOMEM ::
  "(nat \<Rightarrow> int + SIZE_T) \<Rightarrow> (nat \<Rightarrow> SIZE_T \<Rightarrow> bool) \<Rightarrow> (nat \<Rightarrow> SIZE_T \<Rightarrow> int + SIZE_T) \<Rightarrow>
   nat \<Rightarrow> bool" where
  "round_ENOMEM sysctl_size malloc_ok sysctl_data n =
     ((\<exists>sz. sysctl_size n = Inr sz) \<and> (\<forall>sz. malloc_ok n sz)
      \<and> (\<forall>sz. sysctl_data n sz = Inl ENOMEM))"

text \<open>
  The packed form of a list of fields: each field followed by a NUL byte.
\<close>

definition packed_fields :: "byte list list \<Rightarrow> byte list" where
  "packed_fields fs = concat (map (\<lambda>a. a @ [0]) fs)"

section \<open>Proofs\<close>

lemma uss_loop_acc:
  "uss_loop es acc =
     acc + of_nat (length (filter (\<lambda>e. \<not> Shared e \<or> ShareCount e \<le> 1) es))"
  by (induction es arbitrary: acc) simp_all


subsection \<open>Unique set size\<close>

lemma ucast_of_nat_down: "(ucast (of_nat n :: 64 word) :: 32 word) = of_nat n"
  by (simp add: unsigned_of_nat word_of_nat_eq_iff)

text \<open>
  C2. The unique-set-size loop counts an entry as private exactly when its shared flag is
  false or its share count is at most one: the counter is the number of such entries (as a
  machine word), the table of the three example entries gives 2, and the value
  \<open>psutil_proc_memory_uss\<close> returns for a table is that count.
\<close>

theorem uss_counts_private_entries:
  "uss_loop wsInfo 0 = of_nat (length (filter (\<lambda>e. \<not> Shared e \<or> ShareCount e \<le> 1) wsInfo))
   \<and> uss_loop [\<lparr>Shared = False, ShareCount = c\<rparr>, \<lparr>Shared = True, ShareCount = 1\<rparr>,
                \<lparr>Shared = True, ShareCount = 3\<rparr>] 0 = 2
   \<and> (psutil_GetProcWsetInformation q m r = Some (allocs, Inr wsInfo) \<longrightarrow>
        psutil_proc_memory_uss (Inr h) q m r =
          Some (Inr (of_nat (length (filter (\<lambda>e. \<not> Shared e \<or> ShareCount e \<le> 1) wsInfo)))))"
  by (simp add: uss_loop_acc psutil_proc_memory_uss_def ucast_of_nat_down)

theorem uss_counts_private_entries_witness:
  "psutil_proc_memory_uss (Inr 7)
     (\<lambda>n s. (0, [\<lparr>Shared = False, ShareCount = 0\<rparr>, \<lparr>Shared = True, ShareCount = 1\<rparr>,
                 \<lparr>Shared = True, ShareCount = 3\<rparr>]))
     (\<lambda>s. True) (Inr True) = Some (Inr 2)"
proof -
  let ?t = "[\<lparr>Shared = False, ShareCount = 0\<rparr>, \<lparr>Shared = True, ShareCount = 1\<rparr>,
             \<lparr>Shared = True, ShareCount = 3\<rparr>]"
  have "psutil_GetProcWsetInformation (\<lambda>n s. (0, ?t)) (\<lambda>s. True) (Inr True)
          = Some ([0x8000], Inr ?t)"
    by code_simp
  with uss_counts_private_entries [of ?t 0 "\<lambda>n s. (0, ?t)" "\<lambda>s. True" "Inr True" "[0x8000]" 7]
  show ?thesis by simp
qed


subsection \<open>The working-set resize loop\<close>

lemma wset_sizes_Suc: "wset_sizes (Suc len) = wset_sizes len @ [0x8000 * 2 ^ len]"
  by (simp add: wset_sizes_def)

lemma length_wset_sizes: "length (wset_sizes len) = len"
  by (simp add: wset_sizes_def)

lemma unat_double_small:
  fixes b :: "64 word"
  assumes "unat b = 0x8000 * 2 ^ k" and "k \<le> 13"
  shows "unat (b * 2) = 0x8000 * 2 ^ Suc k"
proof -
  have "(2::nat) ^ k \<le> 2 ^ 13" using assms(2) by (intro power_increasing) auto
  then have "unat b * 2 < 2 ^ 64" using assms(1) by simp
  then have "unat (b * 2) = unat b * 2"
    by (simp add: unat_word_ariths)
  then show ?thesis using assms(1) by simp
qed

lemma wset_ceiling_cmp:
  fixes b :: "64 word"
  assumes "unat b = 0x8000 * 2 ^ k"
  shows "(b > 256 * 1024 * 1024) = (14 \<le> k)"
proof -
  have "(b > 256 * 1024 * 1024) = (unat b > 2 ^ 28)"
    by (simp add: word_less_nat_alt)
  also have "\<dots> = ((2::nat) ^ 28 < 2 ^ (15 + k))"
    using assms by (simp add: power_add)
  also have "\<dots> = (28 < 15 + k)"
    by (rule power_strict_increasing_iff) simp
  finally show ?thesis by auto
qed


lemma wset_loop_returns:
  assumes "unat b = 0x8000 * 2 ^ k" and "k \<le> 13"
    and "map unat allocs = wset_sizes (Suc k)"
  shows "\<exists>allocs' r. wset_loop q m n b allocs = Some (allocs', r)
           \<and> length allocs' \<le> 14
           \<and> map unat allocs' = wset_sizes (length allocs')
           \<and> ((\<forall>i s. fst (q i s) = STATUS_INFO_LENGTH_MISMATCH) \<and> (\<forall>s. m s) \<longrightarrow>
                r = Inl (RuntimeError ''NtQueryVirtualMemory bufsize is too large''))"
  using assms
proof (induction "13 - k" arbitrary: k b n allocs)
  case 0
  then have k: "k = 13" by simp
  have "length (map unat allocs) = Suc k"
    using "0.prems"(3) by (simp only: length_wset_sizes)
  then have len: "length allocs = Suc k" by simp
  have big: "b * 2 > 256 * 1024 * 1024"
    using wset_ceiling_cmp [OF unat_double_small [OF "0.prems"(1,2)]] k by simp
  obtain status table where q: "q n b = (status, table)" by (cases "q n b")
  show ?case
  proof (cases "status = STATUS_INFO_LENGTH_MISMATCH")
    case True
    then have "wset_loop q m n b allocs =
        Some (allocs, Inl (RuntimeError ''NtQueryVirtualMemory bufsize is too large''))"
      using q big by (subst wset_loop.simps) simp
    then show ?thesis using len "0.prems"(3) k by simp
  next
    case False
    then have "wset_loop q m n b allocs = Some (allocs, Inr (status, table))"
      using q by (subst wset_loop.simps) simp
    moreover have "\<not> (\<forall>i s. fst (q i s) = STATUS_INFO_LENGTH_MISMATCH)"
      using q False by (metis fst_conv)
    ultimately show ?thesis using len "0.prems"(3) k by simp
  qed
next
  case (Suc d)
  then have k: "k < 13" by simp
  have "length (map unat allocs) = Suc k"
    using Suc.prems(3) by (simp only: length_wset_sizes)
  then have len: "length allocs = Suc k" by simp
  have dbl: "unat (b * 2) = 0x8000 * 2 ^ Suc k"
    by (rule unat_double_small [OF Suc.prems(1,2)])
  have small: "\<not> (b * 2 > 256 * 1024 * 1024)"
    using wset_ceiling_cmp [OF dbl] k by simp
  have allocs': "map unat (allocs @ [b * 2]) = wset_sizes (Suc (Suc k))"
    using Suc.prems(3) dbl by (simp only: wset_sizes_Suc [of "Suc k"] map_append list.map)
  obtain status table where q: "q n b = (status, table)" by (cases "q n b")
  show ?case
  proof (cases "status = STATUS_INFO_LENGTH_MISMATCH")
    case False
    then have "wset_loop q m n b allocs = Some (allocs, Inr (status, table))"
      using q by (subst wset_loop.simps) simp
    moreover have "\<not> (\<forall>i s. fst (q i s) = STATUS_INFO_LENGTH_MISMATCH)"
      using q False by (metis fst_conv)
    ultimately show ?thesis using len Suc.prems(3) k by simp
  next
    case True
    show ?thesis
    proof (cases "m (b * 2)")
      case False
      then have "wset_loop q m n b allocs = Some (allocs @ [b * 2], Inl NoMemory)"
        using q True small by (subst wset_loop.simps) (simp add: Let_def)
      moreover have "\<not> (\<forall>s. m s)" using False by blast
      moreover have "length (allocs @ [b * 2]) = Suc (Suc k)" using len by simp
      ultimately show ?thesis using allocs' k by simp
    next
      case ok: True
      have step: "wset_loop q m n b allocs = wset_loop q m (Suc n) (b * 2) (allocs @ [b * 2])"
        using q True small ok by (subst wset_loop.simps) (simp add: Let_def)
      have d: "d = 13 - Suc k" using Suc.hyps(2) by simp
      have k': "Suc k \<le> 13" using k by simp
      show ?thesis unfolding step by (rule Suc.hyps(1) [OF d dbl k' allocs'])
    qed
  qed
qed


lemma wset_sizes_below_ceiling:
  fixes allocs :: "64 word list"
  assumes "length allocs \<le> 14" and "map unat allocs = wset_sizes (length allocs)"
    and "s \<in> set allocs"
  shows "s \<le> 256 * 1024 * 1024"
proof -
  from assms(3) obtain i where i: "i < length allocs" and s: "allocs ! i = s"
    by (auto simp: in_set_conv_nth)
  have "unat s = map unat allocs ! i" using i s by simp
  also have "\<dots> = 0x8000 * 2 ^ i" using i by (simp add: assms(2) wset_sizes_def)
  finally have u: "unat s = 2 ^ (15 + i)" by (simp add: power_add)
  have "(2::nat) ^ (15 + i) \<le> 2 ^ 28" using i assms(1) by (intro power_increasing) auto
  with u show ?thesis by (simp add: word_le_nat_alt)
qed

lemma unat_wset_size:
  "k \<le> 14 \<Longrightarrow> unat (0x8000 * 2 ^ k :: 64 word) = 0x8000 * 2 ^ k"
proof (induction k)
  case 0
  show ?case by simp
next
  case (Suc k)
  then have "unat (0x8000 * 2 ^ k :: 64 word) = 0x8000 * 2 ^ k" and "k \<le> 13" by simp_all
  from unat_double_small [OF this] show ?case by (simp add: mult.assoc mult.commute)
qed

lemma wset_size_double: "(0x8000 * 2 ^ k :: 64 word) * 2 = 0x8000 * 2 ^ Suc k"
  by simp

lemma wset_size_ceiling:
  "k \<le> 14 \<Longrightarrow> ((0x8000 * 2 ^ k :: 64 word) > 256 * 1024 * 1024) = (k = 14)"
  using wset_ceiling_cmp [OF unat_wset_size, of k] by auto

lemma wset_loop_run:
  assumes "k \<le> n" and "n \<le> 13"
    and "\<forall>i. k \<le> i \<and> i < n \<longrightarrow>
           fst (q i (0x8000 * 2 ^ i)) = STATUS_INFO_LENGTH_MISMATCH \<and> m (0x8000 * 2 ^ Suc i)"
    and "fst (q n (0x8000 * 2 ^ n)) \<noteq> STATUS_INFO_LENGTH_MISMATCH"
  shows "wset_loop q m k (0x8000 * 2 ^ k) allocs
           = Some (allocs @ map (\<lambda>i. 0x8000 * 2 ^ i) [Suc k..<Suc n], Inr (q n (0x8000 * 2 ^ n)))"
  using assms
proof (induction "n - k" arbitrary: k allocs)
  case 0
  then have k: "k = n" by simp
  obtain status table where q: "q n (0x8000 * 2 ^ n) = (status, table)"
    by (cases "q n (0x8000 * 2 ^ n)")
  then have "status \<noteq> STATUS_INFO_LENGTH_MISMATCH" using "0.prems"(4) by simp
  then show ?case unfolding k using q by (subst wset_loop.simps) simp
next
  case (Suc d)
  then have lt: "k < n" by simp
  obtain status table where q: "q k (0x8000 * 2 ^ k) = (status, table)"
    by (cases "q k (0x8000 * 2 ^ k)")
  have mm: "status = STATUS_INFO_LENGTH_MISMATCH" and ok: "m (0x8000 * 2 ^ Suc k)"
    using Suc.prems(3) lt q by auto
  have small: "\<not> ((0x8000 * 2 ^ Suc k :: 64 word) > 256 * 1024 * 1024)"
    using wset_size_ceiling [of "Suc k"] lt Suc.prems(2) by simp
  have step: "wset_loop q m k (0x8000 * 2 ^ k) allocs
                = wset_loop q m (Suc k) (0x8000 * 2 ^ Suc k) (allocs @ [0x8000 * 2 ^ Suc k])"
    using q mm ok small
    by (subst wset_loop.simps) (simp only: wset_size_double Let_def prod.case if_True if_False simp_thms)
  have "wset_loop q m (Suc k) (0x8000 * 2 ^ Suc k) (allocs @ [0x8000 * 2 ^ Suc k])
          = Some ((allocs @ [0x8000 * 2 ^ Suc k])
                    @ map (\<lambda>i. 0x8000 * 2 ^ i) [Suc (Suc k)..<Suc n],
                  Inr (q n (0x8000 * 2 ^ n)))"
  proof (rule Suc.hyps(1))
    show "d = n - Suc k" using Suc.hyps(2) by simp
    show "Suc k \<le> n" using lt by simp
    show "n \<le> 13" by (rule Suc.prems(2))
    show "\<forall>i. Suc k \<le> i \<and> i < n \<longrightarrow>
           fst (q i (0x8000 * 2 ^ i)) = STATUS_INFO_LENGTH_MISMATCH \<and> m (0x8000 * 2 ^ Suc i)"
      using Suc.prems(3) by simp
    show "fst (q n (0x8000 * 2 ^ n)) \<noteq> STATUS_INFO_LENGTH_MISMATCH" by (rule Suc.prems(4))
  qed
  moreover have "[Suc k..<Suc n] = Suc k # [Suc (Suc k)..<Suc n]"
    using lt by (simp add: upt_conv_Cons)
  ultimately show ?case unfolding step by simp
qed

lemma wset_loop_nomem:
  assumes "k \<le> n" and "n < 13"
    and "\<forall>i. k \<le> i \<and> i < n \<longrightarrow>
           fst (q i (0x8000 * 2 ^ i)) = STATUS_INFO_LENGTH_MISMATCH \<and> m (0x8000 * 2 ^ Suc i)"
    and "fst (q n (0x8000 * 2 ^ n)) = STATUS_INFO_LENGTH_MISMATCH"
    and "\<not> m (0x8000 * 2 ^ Suc n)"
  shows "wset_loop q m k (0x8000 * 2 ^ k) allocs
           = Some (allocs @ map (\<lambda>i. 0x8000 * 2 ^ i) [Suc k..<Suc (Suc n)], Inl NoMemory)"
  using assms
proof (induction "n - k" arbitrary: k allocs)
  case 0
  then have k: "k = n" by simp
  obtain status table where q: "q n (0x8000 * 2 ^ n) = (status, table)"
    by (cases "q n (0x8000 * 2 ^ n)")
  then have mm: "status = STATUS_INFO_LENGTH_MISMATCH" using "0.prems"(4) by simp
  have small: "\<not> ((0x8000 * 2 ^ Suc n :: 64 word) > 256 * 1024 * 1024)"
    using wset_size_ceiling [of "Suc n"] "0.prems"(2) by simp
  have "wset_loop q m n (0x8000 * 2 ^ n) allocs
          = Some (allocs @ [0x8000 * 2 ^ Suc n], Inl NoMemory)"
    using q mm small "0.prems"(5)
    by (subst wset_loop.simps) (simp only: wset_size_double Let_def prod.case if_True if_False simp_thms
          not_False_eq_True)
  then show ?case unfolding k by simp
next
  case (Suc d)
  then have lt: "k < n" by simp
  obtain status table where q: "q k (0x8000 * 2 ^ k) = (status, table)"
    by (cases "q k (0x8000 * 2 ^ k)")
  have mm: "status = STATUS_INFO_LENGTH_MISMATCH" and ok: "m (0x8000 * 2 ^ Suc k)"
    using Suc.prems(3) lt q by auto
  have small: "\<not> ((0x8000 * 2 ^ Suc k :: 64 word) > 256 * 1024 * 1024)"
    using wset_size_ceiling [of "Suc k"] lt Suc.prems(2) by simp
  have step: "wset_loop q m k (0x8000 * 2 ^ k) allocs
                = wset_loop q m (Suc k) (0x8000 * 2 ^ Suc k) (allocs @ [0x8000 * 2 ^ Suc k])"
    using q mm ok small
    by (subst wset_loop.simps) (simp only: wset_size_double Let_def prod.case if_True if_False simp_thms)
  have "wset_loop q m (Suc k) (0x8000 * 2 ^ Suc k) (allocs @ [0x8000 * 2 ^ Suc k])
          = Some ((allocs @ [0x8000 * 2 ^ Suc k])
                    @ map (\<lambda>i. 0x8000 * 2 ^ i) [Suc (Suc k)..<Suc (Suc n)], Inl NoMemory)"
  proof (rule Suc.hyps(1))
    show "d = n - Suc k" using Suc.hyps(2) by simp
    show "Suc k \<le> n" using lt by simp
    show "n < 13" by (rule Suc.prems(2))
    show "\<forall>i. Suc k \<le> i \<and> i < n \<longrightarrow>
           fst (q i (0x8000 * 2 ^ i)) = STATUS_INFO_LENGTH_MISMATCH \<and> m (0x8000 * 2 ^ Suc i)"
      using Suc.prems(3) by simp
    show "fst (q n (0x8000 * 2 ^ n)) = STATUS_INFO_LENGTH_MISMATCH" by (rule Suc.prems(4))
    show "\<not> m (0x8000 * 2 ^ Suc n)" by (rule Suc.prems(5))
  qed
  moreover have "[Suc k..<Suc (Suc n)] = Suc k # [Suc (Suc k)..<Suc (Suc n)]"
    using lt by (simp add: upt_conv_Cons)
  ultimately show ?case unfolding step by simp
qed

lemma wset_loop_ceiling:
  assumes "k \<le> 13"
    and "\<forall>i. k \<le> i \<and> i \<le> 13 \<longrightarrow> fst (q i (0x8000 * 2 ^ i)) = STATUS_INFO_LENGTH_MISMATCH"
    and "\<forall>i. k \<le> i \<and> i < 13 \<longrightarrow> m (0x8000 * 2 ^ Suc i)"
  shows "wset_loop q m k (0x8000 * 2 ^ k) allocs
           = Some (allocs @ map (\<lambda>i. 0x8000 * 2 ^ i) [Suc k..<14],
                   Inl (RuntimeError ''NtQueryVirtualMemory bufsize is too large''))"
  using assms
proof (induction "13 - k" arbitrary: k allocs)
  case 0
  then have k: "k = 13" by simp
  obtain status table where q: "q 13 (0x8000 * 2 ^ 13) = (status, table)"
    by (cases "q 13 (0x8000 * 2 ^ 13)")
  then have mm: "status = STATUS_INFO_LENGTH_MISMATCH" using "0.prems"(2) k by auto
  have big: "(0x8000 * 2 ^ Suc 13 :: 64 word) > 256 * 1024 * 1024"
    using wset_size_ceiling [of "Suc 13"] by simp
  have "wset_loop q m 13 (0x8000 * 2 ^ 13) allocs
          = Some (allocs, Inl (RuntimeError ''NtQueryVirtualMemory bufsize is too large''))"
    using q mm big
    by (subst wset_loop.simps) (simp only: wset_size_double Let_def prod.case if_True simp_thms)
  then show ?case unfolding k by simp
next
  case (Suc d)
  then have lt: "k < 13" by simp
  obtain status table where q: "q k (0x8000 * 2 ^ k) = (status, table)"
    by (cases "q k (0x8000 * 2 ^ k)")
  have mm: "status = STATUS_INFO_LENGTH_MISMATCH" using Suc.prems(2) lt q by auto
  have ok: "m (0x8000 * 2 ^ Suc k)" using Suc.prems(3) lt by simp
  have small: "\<not> ((0x8000 * 2 ^ Suc k :: 64 word) > 256 * 1024 * 1024)"
    using wset_size_ceiling [of "Suc k"] lt by simp
  have step: "wset_loop q m k (0x8000 * 2 ^ k) allocs
                = wset_loop q m (Suc k) (0x8000 * 2 ^ Suc k) (allocs @ [0x8000 * 2 ^ Suc k])"
    using q mm ok small
    by (subst wset_loop.simps) (simp only: wset_size_double Let_def prod.case if_True if_False simp_thms)
  have "wset_loop q m (Suc k) (0x8000 * 2 ^ Suc k) (allocs @ [0x8000 * 2 ^ Suc k])
          = Some ((allocs @ [0x8000 * 2 ^ Suc k])
                    @ map (\<lambda>i. 0x8000 * 2 ^ i) [Suc (Suc k)..<14],
                  Inl (RuntimeError ''NtQueryVirtualMemory bufsize is too large''))"
  proof (rule Suc.hyps(1))
    show "d = 13 - Suc k" using Suc.hyps(2) by simp
    show "Suc k \<le> 13" using lt by simp
    show "\<forall>i. Suc k \<le> i \<and> i \<le> 13 \<longrightarrow>
            fst (q i (0x8000 * 2 ^ i)) = STATUS_INFO_LENGTH_MISMATCH"
      using Suc.prems(2) by simp
    show "\<forall>i. Suc k \<le> i \<and> i < 13 \<longrightarrow> m (0x8000 * 2 ^ Suc i)"
      using Suc.prems(3) by simp
  qed
  moreover have "[Suc k..<14] = Suc k # [Suc (Suc k)..<14]"
    using lt by (simp add: upt_conv_Cons)
  ultimately show ?case unfolding step by simp
qed

lemma map_unat_wset_sizes:
  "len \<le> 14 \<Longrightarrow> map unat (map (\<lambda>i. 0x8000 * 2 ^ i :: 64 word) [0..<len]) = wset_sizes len"
  by (simp add: wset_sizes_def unat_wset_size)

lemma wset_info_answer:
  assumes "n \<le> 13"
    and "\<forall>i<n. fst (q i (0x8000 * 2 ^ i)) = STATUS_INFO_LENGTH_MISMATCH"
    and "\<forall>i\<le>n. m (0x8000 * 2 ^ i)"
    and "q n (0x8000 * 2 ^ n) = (status, table)"
    and "status \<noteq> STATUS_INFO_LENGTH_MISMATCH"
  shows "psutil_GetProcWsetInformation q m alive
           = Some (map (\<lambda>i. 0x8000 * 2 ^ i) [0..<Suc n],
                   if NT_SUCCESS status then Inr table
                   else if status = STATUS_ACCESS_DENIED
                     then Inl (AccessDenied ''NtQueryVirtualMemory -> STATUS_ACCESS_DENIED'')
                   else if alive = Inr False
                     then Inl (NoSuchProcess ''psutil_pid_is_running -> 0'')
                   else Inl (NTStatusErr status
                               ''NtQueryVirtualMemory(MemoryWorkingSetInformation)''))"
proof -
  have m0: "m 0x8000" using assms(3) [rule_format, of 0] by simp
  have hyp: "\<forall>i. 0 \<le> i \<and> i < n \<longrightarrow>
           fst (q i (0x8000 * 2 ^ i)) = STATUS_INFO_LENGTH_MISMATCH \<and> m (0x8000 * 2 ^ Suc i)"
  proof (intro allI impI)
    fix i assume i: "0 \<le> i \<and> i < n"
    then have "Suc i \<le> n" by simp
    then have "m (0x8000 * 2 ^ Suc i)" using assms(3) by blast
    moreover have "fst (q i (0x8000 * 2 ^ i)) = STATUS_INFO_LENGTH_MISMATCH"
      using assms(2) i by blast
    ultimately show "fst (q i (0x8000 * 2 ^ i)) = STATUS_INFO_LENGTH_MISMATCH
                     \<and> m (0x8000 * 2 ^ Suc i)" by blast
  qed
  have last: "fst (q n (0x8000 * 2 ^ n)) \<noteq> STATUS_INFO_LENGTH_MISMATCH"
    using assms(4,5) by simp
  have "wset_loop q m 0 (0x8000 * 2 ^ 0) [0x8000]
          = Some ([0x8000] @ map (\<lambda>i. 0x8000 * 2 ^ i) [Suc 0..<Suc n],
                  Inr (q n (0x8000 * 2 ^ n)))"
    by (rule wset_loop_run [of 0 n q m "[0x8000]", OF _ assms(1) hyp last]) simp
  moreover have "[0x8000] @ map (\<lambda>i. 0x8000 * 2 ^ i :: 64 word) [Suc 0..<Suc n]
                   = map (\<lambda>i. 0x8000 * 2 ^ i) [0..<Suc n]"
    by (simp add: upt_conv_Cons del: upt_Suc)
  ultimately have loop: "wset_loop q m 0 0x8000 [0x8000]
          = Some (map (\<lambda>i. 0x8000 * 2 ^ i) [0..<Suc n], Inr (status, table))"
    using assms(4) by simp
  show ?thesis
    unfolding psutil_GetProcWsetInformation_def using m0 by (simp add: loop del: upt_Suc)
qed

lemma wset_info_ceiling:
  assumes "\<forall>i<14. fst (q i (0x8000 * 2 ^ i)) = STATUS_INFO_LENGTH_MISMATCH \<and> m (0x8000 * 2 ^ i)"
  shows "psutil_GetProcWsetInformation q m alive
           = Some (map (\<lambda>i. 0x8000 * 2 ^ i) [0..<14],
                   Inl (RuntimeError ''NtQueryVirtualMemory bufsize is too large''))"
proof -
  have m0: "m 0x8000" using assms [rule_format, of 0] by simp
  have h1: "\<forall>i. 0 \<le> i \<and> i \<le> 13 \<longrightarrow>
              fst (q i (0x8000 * 2 ^ i)) = STATUS_INFO_LENGTH_MISMATCH"
    using assms by simp
  have h2: "\<forall>i. 0 \<le> i \<and> i < 13 \<longrightarrow> m (0x8000 * 2 ^ Suc i)"
  proof (intro allI impI)
    fix i :: nat assume "0 \<le> i \<and> i < 13"
    then have "Suc i < 14" by simp
    then show "m (0x8000 * 2 ^ Suc i)" using assms by blast
  qed
  have "wset_loop q m 0 (0x8000 * 2 ^ 0) [0x8000]
          = Some ([0x8000] @ map (\<lambda>i. 0x8000 * 2 ^ i) [Suc 0..<14],
                  Inl (RuntimeError ''NtQueryVirtualMemory bufsize is too large''))"
    by (rule wset_loop_ceiling [of 0 q m "[0x8000]", OF _ h1 h2]) simp
  moreover have "[0x8000] @ map (\<lambda>i. 0x8000 * 2 ^ i :: 64 word) [Suc 0..<14]
                   = map (\<lambda>i. 0x8000 * 2 ^ i) [0..<14]"
    by (simp add: upt_conv_Cons)
  ultimately have loop: "wset_loop q m 0 0x8000 [0x8000]
          = Some (map (\<lambda>i. 0x8000 * 2 ^ i) [0..<14],
                  Inl (RuntimeError ''NtQueryVirtualMemory bufsize is too large''))"
    by simp
  show ?thesis
    unfolding psutil_GetProcWsetInformation_def using m0 by (simp add: loop)
qed

lemma wset_info_nomem:
  assumes "n \<le> 13"
    and "\<forall>i<n. fst (q i (0x8000 * 2 ^ i)) = STATUS_INFO_LENGTH_MISMATCH \<and> m (0x8000 * 2 ^ i)"
    and "\<not> m (0x8000 * 2 ^ n)"
  shows "psutil_GetProcWsetInformation q m alive
           = Some (map (\<lambda>i. 0x8000 * 2 ^ i) [0..<Suc n], Inl NoMemory)"
proof (cases n)
  case 0
  then have "\<not> m 0x8000" using assms(3) by simp
  then show ?thesis using 0 by (simp add: psutil_GetProcWsetInformation_def)
next
  case (Suc n')
  have m0: "m 0x8000" using assms(2) [rule_format, of 0] Suc by simp
  have h: "\<forall>i. 0 \<le> i \<and> i < n' \<longrightarrow>
           fst (q i (0x8000 * 2 ^ i)) = STATUS_INFO_LENGTH_MISMATCH \<and> m (0x8000 * 2 ^ Suc i)"
  proof (intro allI impI)
    fix i assume i: "0 \<le> i \<and> i < n'"
    then have "i < n" and "Suc i < n" using Suc by simp_all
    then show "fst (q i (0x8000 * 2 ^ i)) = STATUS_INFO_LENGTH_MISMATCH
               \<and> m (0x8000 * 2 ^ Suc i)" using assms(2) by blast
  qed
  have "n' < n" using Suc by simp
  then have last: "fst (q n' (0x8000 * 2 ^ n')) = STATUS_INFO_LENGTH_MISMATCH"
    using assms(2) by blast
  have no: "\<not> m (0x8000 * 2 ^ Suc n')" using assms(3) unfolding Suc .
  have n': "n' < 13" using assms(1) Suc by simp
  have "wset_loop q m 0 (0x8000 * 2 ^ 0) [0x8000]
          = Some ([0x8000] @ map (\<lambda>i. 0x8000 * 2 ^ i) [Suc 0..<Suc (Suc n')], Inl NoMemory)"
    by (rule wset_loop_nomem [of 0 n' q m "[0x8000]", OF _ n' h last no]) simp
  moreover have "[0x8000] @ map (\<lambda>i. 0x8000 * 2 ^ i :: 64 word) [Suc 0..<Suc (Suc n')]
                   = map (\<lambda>i. 0x8000 * 2 ^ i) [0..<Suc (Suc n')]"
    by (simp add: upt_conv_Cons del: upt_Suc)
  ultimately have loop: "wset_loop q m 0 0x8000 [0x8000]
          = Some (map (\<lambda>i. 0x8000 * 2 ^ i) [0..<Suc (Suc n')], Inl NoMemory)"
    by simp
  show ?thesis
    unfolding psutil_GetProcWsetInformation_def Suc using m0 by (simp add: loop del: upt_Suc)
qed

lemma wset_first_three:
  "map (\<lambda>i. 0x8000 * 2 ^ i :: 64 word) [0..<Suc 2] = [0x8000, 0x10000, 0x20000]"
proof -
  have "[0..<Suc 2] = [0, 1, 2]" by (simp add: upt_rec)
  then show ?thesis by simp
qed

text \<open>
  C4. For every sequence of native answers and of allocation results the working-set query
  returns. The sizes it asks \<open>MALLOC_ZERO\<close> for are \<open>0x8000\<close> doubled each time, at most 14
  of them and none above 256 MiB. A "buffer too small" answer is followed by a query with a
  buffer of twice the size: when the first \<open>n\<close> answers are "buffer too small" and answer
  \<open>n \<le> 13\<close> is not (the allocations succeeding), exactly the \<open>n + 1\<close> buffers of
  \<open>0x8000 * 2 ^ i\<close> bytes have been allocated, and a successful answer \<open>n\<close> is the table
  returned. The error "bufsize is too large" is the result exactly when all 14 answers, up
  to the one for a buffer of 256 MiB, are "buffer too small" (their allocations succeeding),
  and then all 14 buffers have been tried.
\<close>

theorem wset_resize_loop_terminates:
  "\<exists>allocs r. psutil_GetProcWsetInformation q m alive = Some (allocs, r)
      \<and> length allocs \<le> 14
      \<and> map unat allocs = wset_sizes (length allocs)
      \<and> (\<forall>s\<in>set allocs. s \<le> 256 * 1024 * 1024)
      \<and> ((\<forall>i s. fst (q i s) = STATUS_INFO_LENGTH_MISMATCH) \<and> (\<forall>s. m s) \<longrightarrow>
            r = Inl (RuntimeError ''NtQueryVirtualMemory bufsize is too large''))
      \<and> (\<forall>n\<le>13. (\<forall>i<n. fst (q i (0x8000 * 2 ^ i)) = STATUS_INFO_LENGTH_MISMATCH)
              \<and> (\<forall>i\<le>n. m (0x8000 * 2 ^ i))
              \<and> fst (q n (0x8000 * 2 ^ n)) \<noteq> STATUS_INFO_LENGTH_MISMATCH \<longrightarrow>
            allocs = map (\<lambda>i. 0x8000 * 2 ^ i) [0..<Suc n]
            \<and> (NT_SUCCESS (fst (q n (0x8000 * 2 ^ n))) \<longrightarrow>
                  r = Inr (snd (q n (0x8000 * 2 ^ n)))))
      \<and> (r = Inl (RuntimeError ''NtQueryVirtualMemory bufsize is too large'') \<longleftrightarrow>
            (\<forall>i<14. fst (q i (0x8000 * 2 ^ i)) = STATUS_INFO_LENGTH_MISMATCH
                     \<and> m (0x8000 * 2 ^ i)))
      \<and> (r = Inl (RuntimeError ''NtQueryVirtualMemory bufsize is too large'') \<longrightarrow>
            allocs = map (\<lambda>i. 0x8000 * 2 ^ i) [0..<14])"
proof -
  define P where "P i \<longleftrightarrow> fst (q i (0x8000 * 2 ^ i)) = STATUS_INFO_LENGTH_MISMATCH
                          \<and> m (0x8000 * 2 ^ i)" for i
  let ?sz = "\<lambda>i. 0x8000 * 2 ^ i :: 64 word"
  let ?fatal = "Inl (RuntimeError ''NtQueryVirtualMemory bufsize is too large'')
                  :: pyerr + MEMORY_WORKING_SET_BLOCK list"
  have shape: "\<And>len. len \<le> 14 \<Longrightarrow>
      length (map ?sz [0..<len]) \<le> 14
      \<and> map unat (map ?sz [0..<len]) = wset_sizes (length (map ?sz [0..<len]))
      \<and> (\<forall>s\<in>set (map ?sz [0..<len]). s \<le> 256 * 1024 * 1024)"
  proof -
    fix len :: nat assume len: "len \<le> 14"
    have l: "length (map ?sz [0..<len]) = len" by simp
    have u: "map unat (map ?sz [0..<len]) = wset_sizes (length (map ?sz [0..<len]))"
      unfolding l by (rule map_unat_wset_sizes [OF len])
    have le: "length (map ?sz [0..<len]) \<le> 14" using len by simp
    have "\<forall>s\<in>set (map ?sz [0..<len]). s \<le> 256 * 1024 * 1024"
    proof (rule ballI)
      fix s assume s: "s \<in> set (map ?sz [0..<len])"
      show "s \<le> 256 * 1024 * 1024" by (rule wset_sizes_below_ceiling [OF le u s])
    qed
    then show "length (map ?sz [0..<len]) \<le> 14
      \<and> map unat (map ?sz [0..<len]) = wset_sizes (length (map ?sz [0..<len]))
      \<and> (\<forall>s\<in>set (map ?sz [0..<len]). s \<le> 256 * 1024 * 1024)"
      using l len u by simp
  qed
  show ?thesis
  proof (cases "\<forall>i<14. P i")
    case True
    then have all: "\<forall>i<14. fst (q i (0x8000 * 2 ^ i)) = STATUS_INFO_LENGTH_MISMATCH
                         \<and> m (0x8000 * 2 ^ i)"
      by (simp add: P_def)
    have res: "psutil_GetProcWsetInformation q m alive = Some (map ?sz [0..<14], ?fatal)"
      by (rule wset_info_ceiling [of q m alive, OF all])
    have c6: "\<forall>n\<le>13. (\<forall>i<n. fst (q i (0x8000 * 2 ^ i)) = STATUS_INFO_LENGTH_MISMATCH)
              \<and> (\<forall>i\<le>n. m (0x8000 * 2 ^ i))
              \<and> fst (q n (0x8000 * 2 ^ n)) \<noteq> STATUS_INFO_LENGTH_MISMATCH \<longrightarrow>
            map ?sz [0..<14] = map (\<lambda>i. 0x8000 * 2 ^ i) [0..<Suc n]
            \<and> (NT_SUCCESS (fst (q n (0x8000 * 2 ^ n))) \<longrightarrow>
                  ?fatal = Inr (snd (q n (0x8000 * 2 ^ n))))"
    proof (intro allI impI)
      fix n :: nat assume "n \<le> 13"
      then have "n < 14" by simp
      then have "fst (q n (0x8000 * 2 ^ n)) = STATUS_INFO_LENGTH_MISMATCH" using all by blast
      moreover assume "(\<forall>i<n. fst (q i (0x8000 * 2 ^ i)) = STATUS_INFO_LENGTH_MISMATCH)
              \<and> (\<forall>i\<le>n. m (0x8000 * 2 ^ i))
              \<and> fst (q n (0x8000 * 2 ^ n)) \<noteq> STATUS_INFO_LENGTH_MISMATCH"
      ultimately show "map ?sz [0..<14] = map (\<lambda>i. 0x8000 * 2 ^ i) [0..<Suc n]
            \<and> (NT_SUCCESS (fst (q n (0x8000 * 2 ^ n))) \<longrightarrow>
                  ?fatal = Inr (snd (q n (0x8000 * 2 ^ n))))"
        by blast
    qed
    from res shape [of 14] c6 all show ?thesis
      by (intro exI [of _ "map ?sz [0..<14]"] exI [of _ ?fatal]) simp
  next
    case False
    then obtain i0 where i0: "i0 < 14" "\<not> P i0" by blast
    define n where "n = (LEAST i. \<not> P i)"
    have nP: "\<not> P n" unfolding n_def using i0(2) by (rule LeastI)
    have "n \<le> i0" unfolding n_def using i0(2) by (rule Least_le)
    then have n13: "n \<le> 13" using i0(1) by simp
    have before: "\<forall>i<n. P i" unfolding n_def using not_less_Least by blast
    have notall: "\<not> (\<forall>i<14. fst (q i (0x8000 * 2 ^ i)) = STATUS_INFO_LENGTH_MISMATCH
                         \<and> m (0x8000 * 2 ^ i))"
      using False by (simp add: P_def)
    have old: "\<not> ((\<forall>i s. fst (q i s) = STATUS_INFO_LENGTH_MISMATCH) \<and> (\<forall>s. m s))"
      using nP by (auto simp: P_def)
    have uniq: "\<And>n'. (\<forall>i<n'. fst (q i (0x8000 * 2 ^ i)) = STATUS_INFO_LENGTH_MISMATCH)
              \<and> (\<forall>i\<le>n'. m (0x8000 * 2 ^ i))
              \<and> fst (q n' (0x8000 * 2 ^ n')) \<noteq> STATUS_INFO_LENGTH_MISMATCH
           \<Longrightarrow> n' = n \<and> m (0x8000 * 2 ^ n)"
    proof -
      fix n' assume h: "(\<forall>i<n'. fst (q i (0x8000 * 2 ^ i)) = STATUS_INFO_LENGTH_MISMATCH)
              \<and> (\<forall>i\<le>n'. m (0x8000 * 2 ^ i))
              \<and> fst (q n' (0x8000 * 2 ^ n')) \<noteq> STATUS_INFO_LENGTH_MISMATCH"
      then have "\<not> P n'" by (simp add: P_def)
      then have le: "n \<le> n'" unfolding n_def by (rule Least_le)
      have "\<not> n < n'"
      proof
        assume "n < n'"
        then have "P n" using h by (simp add: P_def)
        with nP show False by contradiction
      qed
      with le have "n' = n" by simp
      moreover have "m (0x8000 * 2 ^ n')" using h by blast
      ultimately show "n' = n \<and> m (0x8000 * 2 ^ n)" by simp
    qed
    show ?thesis
    proof (cases "m (0x8000 * 2 ^ n)")
      case nomem: False
      have b: "\<forall>i<n. fst (q i (0x8000 * 2 ^ i)) = STATUS_INFO_LENGTH_MISMATCH
                    \<and> m (0x8000 * 2 ^ i)"
        using before by (simp add: P_def)
      have res: "psutil_GetProcWsetInformation q m alive
                   = Some (map ?sz [0..<Suc n], Inl NoMemory)"
        by (rule wset_info_nomem [of n q m alive, OF n13 b nomem])
      have c6: "\<forall>n'\<le>13. (\<forall>i<n'. fst (q i (0x8000 * 2 ^ i)) = STATUS_INFO_LENGTH_MISMATCH)
              \<and> (\<forall>i\<le>n'. m (0x8000 * 2 ^ i))
              \<and> fst (q n' (0x8000 * 2 ^ n')) \<noteq> STATUS_INFO_LENGTH_MISMATCH \<longrightarrow>
            map ?sz [0..<Suc n] = map (\<lambda>i. 0x8000 * 2 ^ i) [0..<Suc n']
            \<and> (NT_SUCCESS (fst (q n' (0x8000 * 2 ^ n'))) \<longrightarrow>
                  (Inl NoMemory :: pyerr + MEMORY_WORKING_SET_BLOCK list)
                    = Inr (snd (q n' (0x8000 * 2 ^ n'))))"
        using uniq nomem by blast
      have "Suc n \<le> 14" using n13 by simp
      from res shape [OF this] c6 notall old show ?thesis
        by (intro exI [of _ "map ?sz [0..<Suc n]"] exI [of _ "Inl NoMemory"])
           (simp del: upt_Suc)
    next
      case mem: True
      then have ans: "fst (q n (0x8000 * 2 ^ n)) \<noteq> STATUS_INFO_LENGTH_MISMATCH"
        using nP by (simp add: P_def)
      obtain status table where q: "q n (0x8000 * 2 ^ n) = (status, table)"
        by (cases "q n (0x8000 * 2 ^ n)")
      have st: "status \<noteq> STATUS_INFO_LENGTH_MISMATCH" using ans q by simp
      have b1: "\<forall>i<n. fst (q i (0x8000 * 2 ^ i)) = STATUS_INFO_LENGTH_MISMATCH"
        using before by (simp add: P_def)
      have b2: "\<forall>i\<le>n. m (0x8000 * 2 ^ i)"
        using before mem by (auto simp: P_def le_less)
      let ?r = "if NT_SUCCESS status then Inr table
                else if status = STATUS_ACCESS_DENIED
                  then Inl (AccessDenied ''NtQueryVirtualMemory -> STATUS_ACCESS_DENIED'')
                else if alive = Inr False
                  then Inl (NoSuchProcess ''psutil_pid_is_running -> 0'')
                else Inl (NTStatusErr status
                            ''NtQueryVirtualMemory(MemoryWorkingSetInformation)'')"
      have res: "psutil_GetProcWsetInformation q m alive = Some (map ?sz [0..<Suc n], ?r)"
        by (rule wset_info_answer [of n q m status table alive, OF n13 b1 b2 q st])
      have nf: "?r \<noteq> ?fatal" by simp
      have succ: "NT_SUCCESS status \<longrightarrow> ?r = Inr table" by simp
      have c6: "\<forall>n'\<le>13. (\<forall>i<n'. fst (q i (0x8000 * 2 ^ i)) = STATUS_INFO_LENGTH_MISMATCH)
              \<and> (\<forall>i\<le>n'. m (0x8000 * 2 ^ i))
              \<and> fst (q n' (0x8000 * 2 ^ n')) \<noteq> STATUS_INFO_LENGTH_MISMATCH \<longrightarrow>
            map ?sz [0..<Suc n] = map (\<lambda>i. 0x8000 * 2 ^ i) [0..<Suc n']
            \<and> (NT_SUCCESS (fst (q n' (0x8000 * 2 ^ n'))) \<longrightarrow>
                  ?r = Inr (snd (q n' (0x8000 * 2 ^ n'))))"
      proof (intro allI impI)
        fix n' :: nat assume "n' \<le> 13"
        assume "(\<forall>i<n'. fst (q i (0x8000 * 2 ^ i)) = STATUS_INFO_LENGTH_MISMATCH)
              \<and> (\<forall>i\<le>n'. m (0x8000 * 2 ^ i))
              \<and> fst (q n' (0x8000 * 2 ^ n')) \<noteq> STATUS_INFO_LENGTH_MISMATCH"
        then have "n' = n" using uniq by blast
        then show "map ?sz [0..<Suc n] = map (\<lambda>i. 0x8000 * 2 ^ i) [0..<Suc n']
            \<and> (NT_SUCCESS (fst (q n' (0x8000 * 2 ^ n'))) \<longrightarrow>
                  ?r = Inr (snd (q n' (0x8000 * 2 ^ n'))))"
          using q by simp
      qed
      have "Suc n \<le> 14" using n13 by simp
      note sh = shape [OF this]
      show ?thesis
      proof (intro exI [of _ "map ?sz [0..<Suc n]"] exI [of _ ?r] conjI)
        show "psutil_GetProcWsetInformation q m alive = Some (map ?sz [0..<Suc n], ?r)"
          by (rule res)
        show "length (map ?sz [0..<Suc n]) \<le> 14" using sh by blast
        show "map unat (map ?sz [0..<Suc n]) = wset_sizes (length (map ?sz [0..<Suc n]))"
          using sh by blast
        show "\<forall>s\<in>set (map ?sz [0..<Suc n]). s \<le> 256 * 1024 * 1024" using sh by blast
        show "(\<forall>i s. fst (q i s) = STATUS_INFO_LENGTH_MISMATCH) \<and> (\<forall>s. m s) \<longrightarrow> ?r = ?fatal"
          using old by blast
        show "\<forall>n'\<le>13. (\<forall>i<n'. fst (q i (0x8000 * 2 ^ i)) = STATUS_INFO_LENGTH_MISMATCH)
              \<and> (\<forall>i\<le>n'. m (0x8000 * 2 ^ i))
              \<and> fst (q n' (0x8000 * 2 ^ n')) \<noteq> STATUS_INFO_LENGTH_MISMATCH \<longrightarrow>
            map ?sz [0..<Suc n] = map (\<lambda>i. 0x8000 * 2 ^ i) [0..<Suc n']
            \<and> (NT_SUCCESS (fst (q n' (0x8000 * 2 ^ n'))) \<longrightarrow>
                  ?r = Inr (snd (q n' (0x8000 * 2 ^ n'))))"
          by (rule c6)
        show "(?r = ?fatal) \<longleftrightarrow>
            (\<forall>i<14. fst (q i (0x8000 * 2 ^ i)) = STATUS_INFO_LENGTH_MISMATCH
                     \<and> m (0x8000 * 2 ^ i))"
          using nf notall by blast
        show "?r = ?fatal \<longrightarrow> map ?sz [0..<Suc n] = map (\<lambda>i. 0x8000 * 2 ^ i) [0..<14]"
          using nf by blast
      qed
    qed
  qed
qed

theorem wset_resize_loop_terminates_witness:
  "psutil_GetProcWsetInformation
       (\<lambda>n s. if n < 2 then (STATUS_INFO_LENGTH_MISMATCH, [])
               else (0, [\<lparr>Shared = False, ShareCount = 0\<rparr>]))
       (\<lambda>s. True) (Inr True)
     = Some ([0x8000, 0x10000, 0x20000], Inr [\<lparr>Shared = False, ShareCount = 0\<rparr>])
   \<and> psutil_GetProcWsetInformation (\<lambda>n s. (STATUS_INFO_LENGTH_MISMATCH, []))
       (\<lambda>s. True) (Inr True)
     = Some (map (\<lambda>i. 0x8000 * 2 ^ i) [0..<14],
             Inl (RuntimeError ''NtQueryVirtualMemory bufsize is too large''))"
proof
  let ?q = "\<lambda>(n::nat) (s::64 word). if n < 2 then (STATUS_INFO_LENGTH_MISMATCH, [])
               else (0, [\<lparr>Shared = False, ShareCount = 0\<rparr>])"
  from wset_resize_loop_terminates [of ?q "\<lambda>s. True" "Inr True"]
  obtain allocs r where
    res: "psutil_GetProcWsetInformation ?q (\<lambda>s. True) (Inr True) = Some (allocs, r)"
    and step: "\<forall>n\<le>13. (\<forall>i<n. fst (?q i (0x8000 * 2 ^ i)) = STATUS_INFO_LENGTH_MISMATCH)
              \<and> (\<forall>i\<le>n. True)
              \<and> fst (?q n (0x8000 * 2 ^ n)) \<noteq> STATUS_INFO_LENGTH_MISMATCH \<longrightarrow>
            allocs = map (\<lambda>i. 0x8000 * 2 ^ i) [0..<Suc n]
            \<and> (NT_SUCCESS (fst (?q n (0x8000 * 2 ^ n))) \<longrightarrow>
                  r = Inr (snd (?q n (0x8000 * 2 ^ n))))"
    by blast
  have "allocs = map (\<lambda>i. 0x8000 * 2 ^ i) [0..<Suc 2]
        \<and> r = Inr [\<lparr>Shared = False, ShareCount = 0\<rparr>]"
    using step [rule_format, of 2]
    by (simp add: STATUS_INFO_LENGTH_MISMATCH_def NT_SUCCESS_def del: upt_Suc)
  then show "psutil_GetProcWsetInformation ?q (\<lambda>s. True) (Inr True)
     = Some ([0x8000, 0x10000, 0x20000], Inr [\<lparr>Shared = False, ShareCount = 0\<rparr>])"
    using res by (simp only: wset_first_three)
next
  let ?q = "\<lambda>(n::nat) (s::64 word). (STATUS_INFO_LENGTH_MISMATCH, [] :: MEMORY_WORKING_SET_BLOCK list)"
  from wset_resize_loop_terminates [of ?q "\<lambda>s. True" "Inr True"]
  obtain allocs r where
    res: "psutil_GetProcWsetInformation ?q (\<lambda>s. True) (Inr True) = Some (allocs, r)"
    and fatal: "(\<forall>i s. fst (?q i s) = STATUS_INFO_LENGTH_MISMATCH) \<and> (\<forall>s::64 word. True) \<longrightarrow>
            r = Inl (RuntimeError ''NtQueryVirtualMemory bufsize is too large'')"
    and sizes: "r = Inl (RuntimeError ''NtQueryVirtualMemory bufsize is too large'') \<longrightarrow>
            allocs = map (\<lambda>i. 0x8000 * 2 ^ i) [0..<14]"
    by blast
  from fatal have r: "r = Inl (RuntimeError ''NtQueryVirtualMemory bufsize is too large'')"
    by simp
  with sizes have "allocs = map (\<lambda>i. 0x8000 * 2 ^ i) [0..<14]" by blast
  with res r show "psutil_GetProcWsetInformation ?q (\<lambda>s. True) (Inr True)
     = Some (map (\<lambda>i. 0x8000 * 2 ^ i) [0..<14],
             Inl (RuntimeError ''NtQueryVirtualMemory bufsize is too large''))"
    by simp
qed


subsection \<open>Kill and wait\<close>

text \<open>
  C6. When the handle was obtained and \<open>TerminateProcess\<close> fails with
  \<open>ERROR_ACCESS_DENIED\<close> (the target died in between), \<open>psutil_proc_kill\<close> closes the
  handle and returns \<open>None\<close>: no exception, and the same calls and result as after a
  successful \<open>TerminateProcess\<close>.
\<close>

theorem kill_after_death_succeeds:
  assumes "pid \<noteq> 0" and "check_phandle OpenProcess = Inr hProcess"
  shows "psutil_proc_kill OpenProcess check_phandle (Inl ERROR_ACCESS_DENIED) pid
           = ([Call_OpenProcess, Call_check_phandle, Call_TerminateProcess, Call_CloseHandle],
              Inr ())
         \<and> psutil_proc_kill OpenProcess check_phandle (Inl ERROR_ACCESS_DENIED) pid
           = psutil_proc_kill OpenProcess check_phandle (Inr ()) pid"
  using assms by (simp add: psutil_proc_kill_def)

theorem kill_after_death_succeeds_witness:
  "snd (psutil_proc_kill (Inr 3) (\<lambda>r. case r of Inl c \<Rightarrow> Inl (AccessDenied ''OpenProcess'')
                                         | Inr h \<Rightarrow> Inr h)
          (Inl ERROR_ACCESS_DENIED) 1234) = Inr ()"
  using kill_after_death_succeeds
    [of 1234 "\<lambda>r. case r of Inl c \<Rightarrow> Inl (AccessDenied ''OpenProcess'') | Inr h \<Rightarrow> Inr h"
        "Inr 3" 3]
  by simp

text \<open>
  C7. With the handle opened, \<open>psutil_proc_wait\<close> returns the exit code when the wait
  reports the object signalled and the exit code can be read; it raises \<open>TimeoutExpired\<close>
  exactly when the wait returns \<open>WAIT_TIMEOUT\<close> and \<open>TimeoutAbandoned\<close> exactly when it
  returns \<open>WAIT_ABANDONED\<close>; a returned value excludes both.
\<close>

theorem wait_three_outcomes:
  assumes "pid \<noteq> 0" and "OpenProcess = Inr hProcess"
  shows "(W timeout = WAIT_OBJECT_0 \<and> G = Inr ExitCode \<longrightarrow>
            snd (psutil_proc_wait OpenProcess W E G pid timeout) = Inr (Some (sint ExitCode)))
       \<and> ((\<exists>s. snd (psutil_proc_wait OpenProcess W E G pid timeout) = Inl (TimeoutExpired s))
            \<longleftrightarrow> W timeout = WAIT_TIMEOUT)
       \<and> ((\<exists>s. snd (psutil_proc_wait OpenProcess W E G pid timeout) = Inl (TimeoutAbandoned s))
            \<longleftrightarrow> W timeout = WAIT_ABANDONED)
       \<and> ((\<exists>c. snd (psutil_proc_wait OpenProcess W E G pid timeout) = Inr c)
            \<longrightarrow> W timeout \<noteq> WAIT_TIMEOUT \<and> W timeout \<noteq> WAIT_ABANDONED)"
  using assms
  by (auto simp: psutil_proc_wait_def Let_def WAIT_OBJECT_0_def WAIT_FAILED_def
        WAIT_TIMEOUT_def WAIT_ABANDONED_def split: sum.splits)

theorem wait_three_outcomes_witness:
  "snd (psutil_proc_wait (Inr 3) (\<lambda>t. WAIT_OBJECT_0) 0 (Inr 42) 1234 1000) = Inr (Some 42)
   \<and> (\<exists>s. snd (psutil_proc_wait (Inr 3) (\<lambda>t. WAIT_TIMEOUT) 0 (Inr 42) 1234 1000)
            = Inl (TimeoutExpired s))
   \<and> (\<exists>s. snd (psutil_proc_wait (Inr 3) (\<lambda>t. WAIT_ABANDONED) 0 (Inr 42) 1234 1000)
            = Inl (TimeoutAbandoned s))"
  using wait_three_outcomes [of 1234 "Inr 3" 3 "\<lambda>t. WAIT_OBJECT_0" 1000 "Inr 42" 42 0]
        wait_three_outcomes [of 1234 "Inr 3" 3 "\<lambda>t. WAIT_TIMEOUT" 1000 "Inr 42" 42 0]
        wait_three_outcomes [of 1234 "Inr 3" 3 "\<lambda>t. WAIT_ABANDONED" 1000 "Inr 42" 42 0]
  by simp


subsection \<open>The process-list retry loop\<close>

lemma alloc_no_sysctl:
  "filter is_Sysctl_size (snd (get_proc_list_alloc mk sz)) = []"
  "filter is_Sysctl_data (snd (get_proc_list_alloc mk sz)) = []"
  by (simp_all add: get_proc_list_alloc_def Let_def)

lemma alloc_no_sysctl':
  "get_proc_list_alloc mk sz = (r, ms) \<Longrightarrow> filter is_Sysctl_size ms = []"
  "get_proc_list_alloc mk sz = (r, ms) \<Longrightarrow> filter is_Sysctl_data ms = []"
  using alloc_no_sysctl [of mk sz] by simp_all

lemma alloc_ok:
  "\<forall>s. mk s \<Longrightarrow> \<exists>sz' ms. get_proc_list_alloc mk sz = (Some sz', ms)"
  by (simp add: get_proc_list_alloc_def Let_def)

lemma loop_rounds_bounded:
  "length (filter is_Sysctl_size (fst (get_proc_list_loop a m d lim n tr)))
     \<le> length (filter is_Sysctl_size tr) + nat lim
   \<and> length (filter is_Sysctl_data (fst (get_proc_list_loop a m d lim n tr)))
     \<le> length (filter is_Sysctl_data tr) + nat lim"
proof (induction a m d lim n tr rule: get_proc_list_loop.induct)
  case (1 a m d lim n tr)
  show ?case
  proof (cases "lim > 0")
    case False
    then show ?thesis by (subst (1 2) get_proc_list_loop.simps) simp
  next
    case pos: True
    show ?thesis
    proof (cases "a n")
      case (Inl err)
      then show ?thesis using pos by (subst (1 2) get_proc_list_loop.simps) simp
    next
      case (Inr sz)
      obtain r ms where al: "get_proc_list_alloc (m n) sz = (r, ms)"
        by (cases "get_proc_list_alloc (m n) sz")
      note ms = alloc_no_sysctl' [OF al]
      show ?thesis
      proof (cases r)
        case None
        then show ?thesis using pos Inr al ms
          by (subst (1 2) get_proc_list_loop.simps) simp
      next
        case (Some sz')
        show ?thesis
        proof (cases "d n sz'")
          case written: (Inr w)
          then show ?thesis using pos Inr al ms Some
            by (subst (1 2) get_proc_list_loop.simps) simp
        next
          case fail: (Inl err)
          show ?thesis
          proof (cases "err = ENOMEM")
            case False
            then show ?thesis using pos Inr al ms Some fail
              by (subst (1 2) get_proc_list_loop.simps) simp
          next
            case True
            have step: "get_proc_list_loop a m d lim n tr =
                get_proc_list_loop a m d (lim - 1) (Suc n)
                  (tr @ [Sysctl_size] @ ms @ [Sysctl_data sz', Free])"
              using pos Inr al Some fail True
              by (subst get_proc_list_loop.simps) simp
            have ih: "length (filter is_Sysctl_size (fst (get_proc_list_loop a m d (lim - 1) (Suc n)
                  (tr @ [Sysctl_size] @ ms @ [Sysctl_data sz', Free]))))
                \<le> length (filter is_Sysctl_size (tr @ [Sysctl_size] @ ms @ [Sysctl_data sz', Free]))
                   + nat (lim - 1)
              \<and> length (filter is_Sysctl_data (fst (get_proc_list_loop a m d (lim - 1) (Suc n)
                  (tr @ [Sysctl_size] @ ms @ [Sysctl_data sz', Free]))))
                \<le> length (filter is_Sysctl_data (tr @ [Sysctl_size] @ ms @ [Sysctl_data sz', Free]))
                   + nat (lim - 1)"
              using "1.IH" [OF pos Inr al [symmetric] Some fail] True
              by simp
            have "nat (lim - 1) + 1 = nat lim" using pos by simp
            then show ?thesis unfolding step using ih ms by simp
          qed
        qed
      qed
    qed
  qed
qed


lemma loop_all_ENOMEM:
  assumes "\<forall>i. n \<le> i \<and> i < n + j \<longrightarrow> round_ENOMEM a m d i" and "lim = int j"
  shows "snd (get_proc_list_loop a m d lim n tr) = Inl (RuntimeError ''couldn't collect PIDs list'')
       \<and> length (filter is_Sysctl_size (fst (get_proc_list_loop a m d lim n tr)))
           = length (filter is_Sysctl_size tr) + j
       \<and> length (filter is_Sysctl_data (fst (get_proc_list_loop a m d lim n tr)))
           = length (filter is_Sysctl_data tr) + j"
  using assms
proof (induction j arbitrary: n lim tr)
  case 0
  then show ?case by (subst (1 2 3) get_proc_list_loop.simps) simp
next
  case (Suc j)
  have pos: "lim > 0" using Suc.prems(2) by simp
  have good: "round_ENOMEM a m d n" using Suc.prems(1) by simp
  then obtain sz where sz: "a n = Inr sz" by (auto simp: round_ENOMEM_def)
  from good have "\<forall>s. m n s" by (simp add: round_ENOMEM_def)
  then obtain sz' ms where al: "get_proc_list_alloc (m n) sz = (Some sz', ms)"
    using alloc_ok by blast
  note ms = alloc_no_sysctl' [OF al]
  from good have fail: "d n sz' = Inl ENOMEM" by (simp add: round_ENOMEM_def)
  have step: "get_proc_list_loop a m d lim n tr =
      get_proc_list_loop a m d (lim - 1) (Suc n)
        (tr @ [Sysctl_size] @ ms @ [Sysctl_data sz', Free])"
    using pos sz al fail by (subst get_proc_list_loop.simps) simp
  have rest: "\<forall>i. Suc n \<le> i \<and> i < Suc n + j \<longrightarrow> round_ENOMEM a m d i"
    using Suc.prems(1) by simp
  have lim': "lim - 1 = int j" using Suc.prems(2) by simp
  show ?case unfolding step using Suc.IH [OF rest lim'] ms by simp
qed

lemma loop_other_errno:
  assumes "\<forall>i. n \<le> i \<and> i < n + j \<longrightarrow> round_ENOMEM a m d i"
    and "int j < lim"
    and "a (n + j) = Inr sz" and "\<forall>s. m (n + j) s" and "\<forall>s. d (n + j) s = Inl e"
    and "e \<noteq> ENOMEM"
  shows "snd (get_proc_list_loop a m d lim n tr)
           = Inl (OSErrnoWithSyscall e ''sysctl(KERN_PROC_ALL)'')
       \<and> length (filter is_Sysctl_size (fst (get_proc_list_loop a m d lim n tr)))
           = length (filter is_Sysctl_size tr) + Suc j
       \<and> length (filter is_Sysctl_data (fst (get_proc_list_loop a m d lim n tr)))
           = length (filter is_Sysctl_data tr) + Suc j"
  using assms
proof (induction j arbitrary: n lim tr)
  case 0
  have pos: "lim > 0" using "0.prems"(2) by simp
  have sz: "a n = Inr sz" using "0.prems"(3) by simp
  have "\<forall>s. m n s" using "0.prems"(4) by simp
  then obtain sz' ms where al: "get_proc_list_alloc (m n) sz = (Some sz', ms)"
    using alloc_ok by blast
  note ms = alloc_no_sysctl' [OF al]
  have fail: "d n sz' = Inl e" using "0.prems"(5) by simp
  show ?case using pos sz al fail "0.prems"(6) ms
    by (subst (1 2 3) get_proc_list_loop.simps) simp
next
  case (Suc j)
  have pos: "lim > 0" using Suc.prems(2) by simp
  have good: "round_ENOMEM a m d n" using Suc.prems(1) by simp
  then obtain sz0 where sz: "a n = Inr sz0" by (auto simp: round_ENOMEM_def)
  from good have "\<forall>s. m n s" by (simp add: round_ENOMEM_def)
  then obtain sz' ms where al: "get_proc_list_alloc (m n) sz0 = (Some sz', ms)"
    using alloc_ok by blast
  note ms = alloc_no_sysctl' [OF al]
  from good have fail: "d n sz' = Inl ENOMEM" by (simp add: round_ENOMEM_def)
  have step: "get_proc_list_loop a m d lim n tr =
      get_proc_list_loop a m d (lim - 1) (Suc n)
        (tr @ [Sysctl_size] @ ms @ [Sysctl_data sz', Free])"
    using pos sz al fail by (subst get_proc_list_loop.simps) simp
  have rest: "\<forall>i. Suc n \<le> i \<and> i < Suc n + j \<longrightarrow> round_ENOMEM a m d i"
    using Suc.prems(1) by simp
  have lim': "int j < lim - 1" using Suc.prems(2) by simp
  have "a (Suc n + j) = Inr sz" "\<forall>s. m (Suc n + j) s" "\<forall>s. d (Suc n + j) s = Inl e"
    using Suc.prems(3,4,5) by simp_all
  from Suc.IH [OF rest lim' this Suc.prems(6)] ms
  show ?case unfolding step by simp
qed

lemma loop_size_failure:
  assumes "\<forall>i. n \<le> i \<and> i < n + j \<longrightarrow> round_ENOMEM a m d i"
    and "int j < lim" and "a (n + j) = Inl e"
  shows "snd (get_proc_list_loop a m d lim n tr)
           = Inl (OSErrnoWithSyscall e ''sysctl(KERN_PROC_ALL)'')
       \<and> length (filter is_Sysctl_size (fst (get_proc_list_loop a m d lim n tr)))
           = length (filter is_Sysctl_size tr) + Suc j
       \<and> length (filter is_Sysctl_data (fst (get_proc_list_loop a m d lim n tr)))
           = length (filter is_Sysctl_data tr) + j"
  using assms
proof (induction j arbitrary: n lim tr)
  case 0
  then show ?case by (subst (1 2 3) get_proc_list_loop.simps) simp
next
  case (Suc j)
  have pos: "lim > 0" using Suc.prems(2) by simp
  have good: "round_ENOMEM a m d n" using Suc.prems(1) by simp
  then obtain sz0 where sz: "a n = Inr sz0" by (auto simp: round_ENOMEM_def)
  from good have "\<forall>s. m n s" by (simp add: round_ENOMEM_def)
  then obtain sz' ms where al: "get_proc_list_alloc (m n) sz0 = (Some sz', ms)"
    using alloc_ok by blast
  note ms = alloc_no_sysctl' [OF al]
  from good have fail: "d n sz' = Inl ENOMEM" by (simp add: round_ENOMEM_def)
  have step: "get_proc_list_loop a m d lim n tr =
      get_proc_list_loop a m d (lim - 1) (Suc n)
        (tr @ [Sysctl_size] @ ms @ [Sysctl_data sz', Free])"
    using pos sz al fail by (subst get_proc_list_loop.simps) simp
  have rest: "\<forall>i. Suc n \<le> i \<and> i < Suc n + j \<longrightarrow> round_ENOMEM a m d i"
    using Suc.prems(1) by simp
  have lim': "int j < lim - 1" using Suc.prems(2) by simp
  have "a (Suc n + j) = Inl e" using Suc.prems(3) by simp
  from Suc.IH [OF rest lim' this] ms
  show ?case unfolding step by simp
qed

text \<open>
  C10. \<open>psutil_get_proc_list\<close> makes at most 8 size probes and at most 8 data fetches.
  If in each of the 8 rounds the fetch fails with \<open>ENOMEM\<close>, it makes 8 of each and raises
  "couldn't collect PIDs list". If after \<open>j < 8\<close> such rounds the fetch fails with another
  \<open>errno\<close>, or the size probe fails, that round is the last one and the error of the call
  is raised.
\<close>

theorem get_proc_list_bounded:
  "length (filter is_Sysctl_size (fst (psutil_get_proc_list a m d))) \<le> 8
   \<and> length (filter is_Sysctl_data (fst (psutil_get_proc_list a m d))) \<le> 8
   \<and> ((\<forall>i<8. round_ENOMEM a m d i) \<longrightarrow>
         snd (psutil_get_proc_list a m d) = Inl (RuntimeError ''couldn't collect PIDs list'')
         \<and> length (filter is_Sysctl_size (fst (psutil_get_proc_list a m d))) = 8
         \<and> length (filter is_Sysctl_data (fst (psutil_get_proc_list a m d))) = 8)
   \<and> (j < 8 \<and> (\<forall>i<j. round_ENOMEM a m d i) \<and> e \<noteq> ENOMEM
        \<and> a j = Inr sz \<and> (\<forall>s. m j s) \<and> (\<forall>s. d j s = Inl e) \<longrightarrow>
         snd (psutil_get_proc_list a m d) = Inl (OSErrnoWithSyscall e ''sysctl(KERN_PROC_ALL)'')
         \<and> length (filter is_Sysctl_data (fst (psutil_get_proc_list a m d))) = Suc j)
   \<and> (j < 8 \<and> (\<forall>i<j. round_ENOMEM a m d i) \<and> a j = Inl e \<longrightarrow>
         snd (psutil_get_proc_list a m d) = Inl (OSErrnoWithSyscall e ''sysctl(KERN_PROC_ALL)'')
         \<and> length (filter is_Sysctl_size (fst (psutil_get_proc_list a m d))) = Suc j)"
proof -
  have bound: "length (filter is_Sysctl_size (fst (psutil_get_proc_list a m d))) \<le> 8
     \<and> length (filter is_Sysctl_data (fst (psutil_get_proc_list a m d))) \<le> 8"
    using loop_rounds_bounded [of a m d 8 0 "[]"] by (simp add: psutil_get_proc_list_def)
  have all: "(\<forall>i<8. round_ENOMEM a m d i) \<longrightarrow>
         snd (psutil_get_proc_list a m d) = Inl (RuntimeError ''couldn't collect PIDs list'')
         \<and> length (filter is_Sysctl_size (fst (psutil_get_proc_list a m d))) = 8
         \<and> length (filter is_Sysctl_data (fst (psutil_get_proc_list a m d))) = 8"
    using loop_all_ENOMEM [of 0 8 a m d 8 "[]"] by (simp add: psutil_get_proc_list_def)
  have other: "j < 8 \<and> (\<forall>i<j. round_ENOMEM a m d i) \<and> e \<noteq> ENOMEM
        \<and> a j = Inr sz \<and> (\<forall>s. m j s) \<and> (\<forall>s. d j s = Inl e) \<longrightarrow>
         snd (psutil_get_proc_list a m d) = Inl (OSErrnoWithSyscall e ''sysctl(KERN_PROC_ALL)'')
         \<and> length (filter is_Sysctl_data (fst (psutil_get_proc_list a m d))) = Suc j"
    using loop_other_errno [of 0 j a m d 8 sz e "[]"] by (simp add: psutil_get_proc_list_def)
  have probe: "j < 8 \<and> (\<forall>i<j. round_ENOMEM a m d i) \<and> a j = Inl e \<longrightarrow>
         snd (psutil_get_proc_list a m d) = Inl (OSErrnoWithSyscall e ''sysctl(KERN_PROC_ALL)'')
         \<and> length (filter is_Sysctl_size (fst (psutil_get_proc_list a m d))) = Suc j"
    using loop_size_failure [of 0 j a m d 8 e "[]"] by (simp add: psutil_get_proc_list_def)
  from bound all other probe show ?thesis by blast
qed

theorem get_proc_list_bounded_witness:
  "snd (psutil_get_proc_list (\<lambda>n. Inr 1000) (\<lambda>n s. True) (\<lambda>n s. Inl ENOMEM))
     = Inl (RuntimeError ''couldn't collect PIDs list'')
   \<and> length (filter is_Sysctl_data
        (fst (psutil_get_proc_list (\<lambda>n. Inr 1000) (\<lambda>n s. True) (\<lambda>n s. Inl ENOMEM)))) = 8
   \<and> snd (psutil_get_proc_list (\<lambda>n. Inr 1000) (\<lambda>n s. True)
            (\<lambda>n s. if n < 2 then Inl ENOMEM else Inl EIO))
     = Inl (OSErrnoWithSyscall EIO ''sysctl(KERN_PROC_ALL)'')
   \<and> length (filter is_Sysctl_data
        (fst (psutil_get_proc_list (\<lambda>n. Inr 1000) (\<lambda>n s. True)
            (\<lambda>n s. if n < 2 then Inl ENOMEM else Inl EIO)))) = 3"
  using get_proc_list_bounded
          [of "\<lambda>n. Inr 1000" "\<lambda>n s. True" "\<lambda>n s. Inl ENOMEM" 0 EIO 1000]
        get_proc_list_bounded
          [of "\<lambda>n. Inr 1000" "\<lambda>n s. True" "\<lambda>n s. if n < 2 then Inl ENOMEM else Inl EIO"
              2 EIO 1000]
  by (simp add: round_ENOMEM_def EIO_def ENOMEM_def)

subsection \<open>The executable-path query\<close>

lemma exe_unat_double:
  fixes b :: "32 word"
  assumes "unat b = 520 * 2 ^ k" and "k \<le> 6"
  shows "unat (b * 2) = 520 * 2 ^ Suc k"
proof -
  have "(2::nat) ^ k \<le> 2 ^ 6" using assms(2) by (intro power_increasing) auto
  then have "unat b * 2 < 2 ^ 32" using assms(1) by simp
  then have "unat (b * 2) = unat b * 2"
    by (simp add: unat_word_ariths)
  then show ?thesis using assms(1) by simp
qed

lemma exe_continue_bound:
  fixes b' :: "32 word"
  assumes "unat b' = 520 * 2 ^ Suc k" and "b' \<le> 0x7FFF * 2"
  shows "Suc k \<le> 6"
proof (rule ccontr)
  assume "\<not> Suc k \<le> 6"
  then have "(2::nat) ^ 7 \<le> 2 ^ Suc k" by (intro power_increasing) auto
  then have "66560 \<le> unat b'" using assms(1) by simp
  moreover have "unat b' \<le> 65534" using assms(2) by (simp add: word_le_nat_alt)
  ultimately show False by simp
qed

lemma exe_double_loop_returns:
  assumes "unat b = 520 * 2 ^ k" and "k \<le> 6"
  shows "\<exists>rest r. exe_double_loop Q m n b tr
           = Some (tr @ [Call_FREE, Call_MALLOC_ZERO (unat (b * 2))] @ rest, r)
           \<and> (\<forall>e. r = Inl e \<longrightarrow> e = NoMemory)"
  using assms
proof (induction "6 - k" arbitrary: k b n tr)
  case 0
  then have k: "k = 6" by simp
  have dbl: "unat (b * 2) = 520 * 2 ^ Suc k" by (rule exe_unat_double [OF "0.prems"])
  have stop: "\<not> (b * 2 \<le> 0x7FFF * 2)"
    using exe_continue_bound [OF dbl] k by auto
  show ?case
  proof (cases "m (unat (b * 2))")
    case False
    then show ?thesis by (subst exe_double_loop.simps) (simp add: Let_def)
  next
    case True
    then show ?thesis using stop by (subst exe_double_loop.simps) (simp add: Let_def)
  qed
next
  case (Suc d)
  then have k: "k < 6" by simp
  have dbl: "unat (b * 2) = 520 * 2 ^ Suc k" by (rule exe_unat_double [OF Suc.prems])
  show ?case
  proof (cases "m (unat (b * 2))")
    case False
    then show ?thesis by (subst exe_double_loop.simps) (simp add: Let_def)
  next
    case True
    let ?ans = "Q n (ucast (b * 2)) (unat (b * 2))"
    let ?tr2 = "(tr @ [Call_FREE, Call_MALLOC_ZERO (unat (b * 2))])
                  @ [Call_NtQuerySystemInformation (unat (ucast (b * 2) :: 16 word))]"
    show ?thesis
    proof (cases "nt_status ?ans = STATUS_INFO_LENGTH_MISMATCH \<and> b * 2 \<le> 0x7FFF * 2")
      case False
      then have "exe_double_loop Q m n b tr = Some (?tr2, Inr ?ans)"
        using True by (subst exe_double_loop.simps) (auto simp: Let_def)
      then show ?thesis by simp
    next
      case again: True
      then have step: "exe_double_loop Q m n b tr = exe_double_loop Q m (Suc n) (b * 2) ?tr2"
        using True by (subst exe_double_loop.simps) (simp add: Let_def)
      have d: "d = 6 - Suc k" using Suc.hyps(2) by simp
      have k': "Suc k \<le> 6" using k by simp
      from Suc.hyps(1) [OF d dbl k', of "Suc n" ?tr2]
      show ?thesis unfolding step by auto
    qed
  qed
qed


lemma unat_ucast_ushort: "unat (ucast (ml::16 word) :: 32 word) = unat ml"
proof -
  have "unat ml < 2 ^ 16" using unsigned_less [of ml, where 'a = nat] by simp
  then have "unat ml < 2 ^ 32" by simp
  then have "take_bit 32 (unat ml) = unat ml" by (rule take_bit_nat_eq_self)
  then show ?thesis by (simp add: unsigned_ucast_eq)
qed

lemma ushort_le_ulong: "((ucast (ml :: 16 word) :: 32 word) \<le> 520) = (unat ml \<le> 520)"
  by (simp add: word_le_nat_alt unat_ucast_ushort)

lemma exe_resize_error:
  assumes "exe_resize Q m 520 ans tr = Some (tr', Inl e)"
  shows "e = NoMemory"
proof (cases "nt_status ans = STATUS_INFO_LENGTH_MISMATCH
              \<and> (ucast (nt_MaximumLength ans) :: 32 word) \<le> 520")
  case True
  then have run: "exe_double_loop Q m 1 520 tr = Some (tr', Inl e)"
    using assms by (simp add: exe_resize_def)
  have "unat (520 :: 32 word) = 520 * 2 ^ 0" by simp
  from exe_double_loop_returns [OF this, of Q m 1 tr] run
  show ?thesis by auto
next
  case False
  then show ?thesis using assms
    by (auto simp: exe_resize_def Let_def split: if_splits)
qed

lemma unat_exe_size: "k \<le> 7 \<Longrightarrow> unat (520 * 2 ^ k :: 32 word) = 520 * 2 ^ k"
proof (induction k)
  case 0
  show ?case by simp
next
  case (Suc k)
  then have "unat (520 * 2 ^ k :: 32 word) = 520 * 2 ^ k" and "k \<le> 6" by simp_all
  from exe_unat_double [OF this] show ?case by (simp add: mult.assoc mult.commute)
qed

lemma exe_size_double: "(520 * 2 ^ k :: 32 word) * 2 = 520 * 2 ^ Suc k"
  by simp

lemma exe_size_continue:
  assumes "k \<le> 7"
  shows "((520 * 2 ^ k :: 32 word) \<le> 0x7FFF * 2) = (k \<le> 6)"
proof (cases "k \<le> 6")
  case True
  then have "(2::nat) ^ k \<le> 2 ^ 6" by (intro power_increasing) auto
  then have "unat (520 * 2 ^ k :: 32 word) \<le> 65534" using unat_exe_size [OF assms] by simp
  then show ?thesis using True by (simp add: word_le_nat_alt)
next
  case False
  then have "k = 7" using assms by simp
  then have "unat (520 * 2 ^ k :: 32 word) = 66560" using unat_exe_size [of 7] by simp
  then show ?thesis using False by (simp add: word_le_nat_alt)
qed

lemma exe_double_loop_run:
  assumes "k < j" and "j \<le> 7"
    and "\<forall>i. k < i \<and> i < j \<longrightarrow>
           nt_status (Q i (ucast (520 * 2 ^ i :: 32 word)) (520 * 2 ^ i))
             = STATUS_INFO_LENGTH_MISMATCH"
    and "\<forall>i. k < i \<and> i \<le> j \<longrightarrow> m (520 * 2 ^ i)"
    and "j < 7 \<longrightarrow> nt_status (Q j (ucast (520 * 2 ^ j :: 32 word)) (520 * 2 ^ j))
                       \<noteq> STATUS_INFO_LENGTH_MISMATCH"
  shows "\<exists>rest. exe_double_loop Q m (Suc k) (520 * 2 ^ k) tr
                  = Some (tr @ rest, Inr (Q j (ucast (520 * 2 ^ j :: 32 word)) (520 * 2 ^ j)))
               \<and> Call_pid_is_running \<notin> set rest"
  using assms
proof (induction "j - Suc k" arbitrary: k tr)
  case 0
  then have j: "j = Suc k" by simp
  have k7: "Suc k \<le> 7" using "0.prems"(2) j by simp
  have u: "unat (520 * 2 ^ Suc k :: 32 word) = 520 * 2 ^ Suc k" by (rule unat_exe_size [OF k7])
  have "k < Suc k \<and> Suc k \<le> j" using j by simp
  then have ok: "m (520 * 2 ^ Suc k)" using "0.prems"(4) by blast
  have stop: "\<not> (nt_status (Q (Suc k) (ucast (520 * 2 ^ Suc k :: 32 word)) (520 * 2 ^ Suc k))
                   = STATUS_INFO_LENGTH_MISMATCH
                 \<and> (520 * 2 ^ Suc k :: 32 word) \<le> 0x7FFF * 2)"
  proof (cases "j < 7")
    case True
    then have "nt_status (Q j (ucast (520 * 2 ^ j :: 32 word)) (520 * 2 ^ j))
                 \<noteq> STATUS_INFO_LENGTH_MISMATCH" using "0.prems"(5) by blast
    then show ?thesis unfolding j by blast
  next
    case False
    then have "\<not> Suc k \<le> 6" using j by simp
    then have "\<not> (520 * 2 ^ Suc k :: 32 word) \<le> 0x7FFF * 2"
      using exe_size_continue [OF k7] by blast
    then show ?thesis by blast
  qed
  have "exe_double_loop Q m (Suc k) (520 * 2 ^ k) tr
          = Some ((tr @ [Call_FREE, Call_MALLOC_ZERO (520 * 2 ^ Suc k)])
                    @ [Call_NtQuerySystemInformation
                         (unat (ucast (520 * 2 ^ Suc k :: 32 word) :: 16 word))],
                  Inr (Q (Suc k) (ucast (520 * 2 ^ Suc k :: 32 word)) (520 * 2 ^ Suc k)))"
    using ok stop
    by (subst exe_double_loop.simps)
       (simp only: Let_def exe_size_double u if_True if_False simp_thms)
  then show ?case unfolding j by simp
next
  case (Suc d)
  then have lt: "Suc k < j" by simp
  have k7: "Suc k \<le> 7" using Suc.prems(2) lt by simp
  have k6: "Suc k \<le> 6" using Suc.prems(2) lt by simp
  have u: "unat (520 * 2 ^ Suc k :: 32 word) = 520 * 2 ^ Suc k" by (rule unat_exe_size [OF k7])
  have in1: "k < Suc k \<and> Suc k \<le> j" and in2: "k < Suc k \<and> Suc k < j" using lt by simp_all
  have ok: "m (520 * 2 ^ Suc k)" using Suc.prems(4) in1 by blast
  have a1: "nt_status (Q (Suc k) (ucast (520 * 2 ^ Suc k :: 32 word)) (520 * 2 ^ Suc k))
                   = STATUS_INFO_LENGTH_MISMATCH"
    using Suc.prems(3) in2 by blast
  have a2: "(520 * 2 ^ Suc k :: 32 word) \<le> 0x7FFF * 2"
    using exe_size_continue [OF k7] k6 by blast
  have again: "nt_status (Q (Suc k) (ucast (520 * 2 ^ Suc k :: 32 word)) (520 * 2 ^ Suc k))
                   = STATUS_INFO_LENGTH_MISMATCH
                 \<and> (520 * 2 ^ Suc k :: 32 word) \<le> 0x7FFF * 2"
    using a1 a2 by blast
  let ?tr2 = "(tr @ [Call_FREE, Call_MALLOC_ZERO (520 * 2 ^ Suc k)])
                    @ [Call_NtQuerySystemInformation
                         (unat (ucast (520 * 2 ^ Suc k :: 32 word) :: 16 word))]"
  have step: "exe_double_loop Q m (Suc k) (520 * 2 ^ k) tr
                = exe_double_loop Q m (Suc (Suc k)) (520 * 2 ^ Suc k) ?tr2"
    using ok again
    by (subst exe_double_loop.simps)
       (simp only: Let_def exe_size_double u if_True if_False simp_thms)
  have "\<exists>rest. exe_double_loop Q m (Suc (Suc k)) (520 * 2 ^ Suc k) ?tr2
                  = Some (?tr2 @ rest, Inr (Q j (ucast (520 * 2 ^ j :: 32 word)) (520 * 2 ^ j)))
               \<and> Call_pid_is_running \<notin> set rest"
  proof (rule Suc.hyps(1))
    show "d = j - Suc (Suc k)" using Suc.hyps(2) by simp
    show "Suc k < j" by (rule lt)
    show "j \<le> 7" by (rule Suc.prems(2))
    show "\<forall>i. Suc k < i \<and> i < j \<longrightarrow>
           nt_status (Q i (ucast (520 * 2 ^ i :: 32 word)) (520 * 2 ^ i))
             = STATUS_INFO_LENGTH_MISMATCH"
      using Suc.prems(3) Suc_lessD by blast
    show "\<forall>i. Suc k < i \<and> i \<le> j \<longrightarrow> m (520 * 2 ^ i)"
      using Suc.prems(4) Suc_lessD by blast
    show "j < 7 \<longrightarrow> nt_status (Q j (ucast (520 * 2 ^ j :: 32 word)) (520 * 2 ^ j))
                       \<noteq> STATUS_INFO_LENGTH_MISMATCH"
      by (rule Suc.prems(5))
  qed
  then obtain rest where r:
    "exe_double_loop Q m (Suc (Suc k)) (520 * 2 ^ Suc k) ?tr2
       = Some (?tr2 @ rest, Inr (Q j (ucast (520 * 2 ^ j :: 32 word)) (520 * 2 ^ j)))"
    and nr: "Call_pid_is_running \<notin> set rest" by blast
  show ?case
    unfolding step r using nr
    by (intro exI [of _ "[Call_FREE, Call_MALLOC_ZERO (520 * 2 ^ Suc k),
          Call_NtQuerySystemInformation
            (unat (ucast (520 * 2 ^ Suc k :: 32 word) :: 16 word))] @ rest"]) simp
qed

lemma exe_finish:
  assumes "pid \<noteq> 0" and "m 520"
    and "exe_resize Q m 520 (Q 0 520 520)
            [Call_MALLOC_ZERO 520, Call_NtQuerySystemInformation 520] = Some (tr', Inr ans)"
  shows "psutil_proc_exe Q m alive pid
           = Some (if \<not> NT_SUCCESS (nt_status ans)
                   then (tr' @ [Call_FREE, Call_pid_is_running],
                         Inl (if alive = Inr False
                              then NoSuchProcess ''psutil_pid_is_running -> 0''
                              else NTStatusErr (nt_status ans) ''NtQuerySystemInformation''))
                   else (tr' @ [Call_FREE],
                         Inr (case nt_Buffer ans of None \<Rightarrow> []
                              | Some chars \<Rightarrow> take (unat (nt_Length ans) div 2) chars)))"
  using assms by (cases "nt_Buffer ans") (simp_all add: psutil_proc_exe_def Let_def)

lemma exe_resize_first:
  "nt_status a0 \<noteq> STATUS_INFO_LENGTH_MISMATCH \<Longrightarrow> exe_resize Q m 520 a0 tr = Some (tr, Inr a0)"
  by (simp add: exe_resize_def)

lemma exe_resize_retry:
  assumes "nt_status a0 = STATUS_INFO_LENGTH_MISMATCH" and "520 < unat (nt_MaximumLength a0)"
    and "m (unat (nt_MaximumLength a0))"
  shows "exe_resize Q m 520 a0 tr
           = Some (tr @ [Call_FREE, Call_MALLOC_ZERO (unat (nt_MaximumLength a0)),
                         Call_NtQuerySystemInformation (unat (nt_MaximumLength a0))],
                   Inr (Q 1 (nt_MaximumLength a0) (unat (nt_MaximumLength a0))))"
proof -
  have "\<not> (ucast (nt_MaximumLength a0) :: 32 word) \<le> 520"
    using assms(2) by (simp add: ushort_le_ulong)
  then show ?thesis using assms(1,3) by (simp add: exe_resize_def Let_def)
qed

lemma exe_resize_doubling:
  assumes "nt_status a0 = STATUS_INFO_LENGTH_MISMATCH" and "unat (nt_MaximumLength a0) \<le> 520"
    and "1 \<le> j" and "j \<le> 7"
    and "\<forall>i. 1 \<le> i \<and> i < j \<longrightarrow>
           nt_status (Q i (ucast (520 * 2 ^ i :: 32 word)) (520 * 2 ^ i))
             = STATUS_INFO_LENGTH_MISMATCH"
    and "\<forall>i. 1 \<le> i \<and> i \<le> j \<longrightarrow> m (520 * 2 ^ i)"
    and "j < 7 \<longrightarrow> nt_status (Q j (ucast (520 * 2 ^ j :: 32 word)) (520 * 2 ^ j))
                       \<noteq> STATUS_INFO_LENGTH_MISMATCH"
  shows "\<exists>rest. exe_resize Q m 520 a0 tr
                  = Some (tr @ rest, Inr (Q j (ucast (520 * 2 ^ j :: 32 word)) (520 * 2 ^ j)))
               \<and> Call_pid_is_running \<notin> set rest"
proof -
  have le: "(ucast (nt_MaximumLength a0) :: 32 word) \<le> 520"
    using assms(2) by (simp add: ushort_le_ulong)
  have rs: "exe_resize Q m 520 a0 tr = exe_double_loop Q m (Suc 0) (520 * 2 ^ 0) tr"
    using assms(1) le by (simp add: exe_resize_def)
  have j0: "0 < j" using assms(3) by simp
  have h3: "\<forall>i. 0 < i \<and> i < j \<longrightarrow>
           nt_status (Q i (ucast (520 * 2 ^ i :: 32 word)) (520 * 2 ^ i))
             = STATUS_INFO_LENGTH_MISMATCH"
    using assms(5) by (simp add: Suc_le_eq)
  have h4: "\<forall>i. 0 < i \<and> i \<le> j \<longrightarrow> m (520 * 2 ^ i)"
    using assms(6) by (simp add: Suc_le_eq)
  show ?thesis unfolding rs
    by (rule exe_double_loop_run [of 0 j Q m tr, OF j0 assms(4) h3 h4 assms(7)])
qed

text \<open>
  C9, as stated, fails: the first answer reports the size \<open>0x300\<close>, the single retry with
  a buffer of \<open>0x300\<close> bytes is again answered "too small", and the query ends with that
  status as its error, without any doubled buffer.
\<close>

theorem exe_retry_counterexample:
  "psutil_proc_exe
     (\<lambda>n ml sz. \<lparr>nt_status = STATUS_INFO_LENGTH_MISMATCH, nt_MaximumLength = 0x300,
                 nt_Length = 0, nt_Buffer = Some []\<rparr>)
     (\<lambda>sz. True) (Inr True) 1234
   = Some ([Call_MALLOC_ZERO 520, Call_NtQuerySystemInformation 520, Call_FREE,
            Call_MALLOC_ZERO 768, Call_NtQuerySystemInformation 768, Call_FREE,
            Call_pid_is_running],
           Inl (NTStatusErr STATUS_INFO_LENGTH_MISMATCH ''NtQuerySystemInformation''))"
  by (simp add: psutil_proc_exe_def exe_resize_def Let_def NT_SUCCESS_def
        STATUS_INFO_LENGTH_MISMATCH_def word_le_nat_alt)

text \<open>
  C9, amended. After a first "too small" answer that reports a length above the buffer
  size, \<open>psutil_proc_exe\<close> retries once with a buffer of exactly that length and makes no
  further query: a retry that fails (also with "too small") ends in \<open>NoSuchProcess\<close> or in
  the status error, by the liveness check. Doubling is chosen only when the first
  "too small" answer reports no length above the buffer size; the next buffer then has
  \<open>2 * 0x208\<close> bytes.
\<close>

theorem exe_retry_policy:
  assumes "pid \<noteq> 0" and "m 520"
    and "nt_status (Q 0 520 520) = STATUS_INFO_LENGTH_MISMATCH"
    and "ml = nt_MaximumLength (Q 0 520 520)"
  shows "(520 < unat ml \<and> m (unat ml) \<longrightarrow>
           (\<exists>rest r. psutil_proc_exe Q m alive pid
               = Some ([Call_MALLOC_ZERO 520, Call_NtQuerySystemInformation 520, Call_FREE,
                        Call_MALLOC_ZERO (unat ml), Call_NtQuerySystemInformation (unat ml)]
                       @ rest, r)
             \<and> set rest \<subseteq> {Call_FREE, Call_pid_is_running}
             \<and> (\<not> NT_SUCCESS (nt_status (Q 1 ml (unat ml))) \<longrightarrow>
                  r = Inl (if alive = Inr False
                           then NoSuchProcess ''psutil_pid_is_running -> 0''
                           else NTStatusErr (nt_status (Q 1 ml (unat ml)))
                                  ''NtQuerySystemInformation''))))
       \<and> (unat ml \<le> 520 \<longrightarrow>
           (\<exists>rest r. psutil_proc_exe Q m alive pid
               = Some ([Call_MALLOC_ZERO 520, Call_NtQuerySystemInformation 520, Call_FREE,
                        Call_MALLOC_ZERO 1040] @ rest, r)))"
proof (intro conjI impI)
  assume big: "520 < unat ml \<and> m (unat ml)"
  then have nle: "\<not> (ucast ml :: 32 word) \<le> 520" by (simp add: ushort_le_ulong)
  let ?tr = "[Call_MALLOC_ZERO 520, Call_NtQuerySystemInformation 520, Call_FREE,
              Call_MALLOC_ZERO (unat ml), Call_NtQuerySystemInformation (unat ml)]"
  have rs: "exe_resize Q m 520 (Q 0 520 520)
              [Call_MALLOC_ZERO 520, Call_NtQuerySystemInformation 520]
            = Some (?tr, Inr (Q 1 ml (unat ml)))"
    using assms(3) assms(4) [symmetric] big nle by (simp add: exe_resize_def Let_def)
  show "\<exists>rest r. psutil_proc_exe Q m alive pid = Some (?tr @ rest, r)
             \<and> set rest \<subseteq> {Call_FREE, Call_pid_is_running}
             \<and> (\<not> NT_SUCCESS (nt_status (Q 1 ml (unat ml))) \<longrightarrow>
                  r = Inl (if alive = Inr False
                           then NoSuchProcess ''psutil_pid_is_running -> 0''
                           else NTStatusErr (nt_status (Q 1 ml (unat ml)))
                                  ''NtQuerySystemInformation''))"
    using assms(1,2) rs
    by (cases "nt_Buffer (Q 1 ml (unat ml))") (simp_all add: psutil_proc_exe_def Let_def)
next
  assume small: "unat ml \<le> 520"
  then have le: "(ucast ml :: 32 word) \<le> 520" by (simp add: ushort_le_ulong)
  let ?tr0 = "[Call_MALLOC_ZERO 520, Call_NtQuerySystemInformation 520]"
  have "unat (520 :: 32 word) = 520 * 2 ^ 0" by simp
  from exe_double_loop_returns [OF this, of Q m 1 ?tr0]
  obtain rest r where
    loop: "exe_double_loop Q m 1 520 ?tr0
             = Some (?tr0 @ [Call_FREE, Call_MALLOC_ZERO (unat (520 * 2 :: 32 word))] @ rest, r)"
    by auto
  have rs: "exe_resize Q m 520 (Q 0 520 520) ?tr0
             = Some ([Call_MALLOC_ZERO 520, Call_NtQuerySystemInformation 520, Call_FREE,
                      Call_MALLOC_ZERO 1040] @ rest, r)"
    using assms(3) assms(4) [symmetric] le loop by (simp add: exe_resize_def)
  show "\<exists>rest r. psutil_proc_exe Q m alive pid
               = Some ([Call_MALLOC_ZERO 520, Call_NtQuerySystemInformation 520, Call_FREE,
                        Call_MALLOC_ZERO 1040] @ rest, r)"
  proof (cases r)
    case (Inl e)
    then show ?thesis using assms(1,2) rs by (simp add: psutil_proc_exe_def Let_def)
  next
    case (Inr ans')
    then show ?thesis using assms(1,2) rs
      by (cases "nt_Buffer ans'") (simp_all add: psutil_proc_exe_def Let_def)
  qed
qed

theorem exe_retry_policy_witness:
  "\<exists>rest. psutil_proc_exe
     (\<lambda>n ml sz. \<lparr>nt_status = STATUS_INFO_LENGTH_MISMATCH, nt_MaximumLength = 0x300,
                 nt_Length = 0, nt_Buffer = Some []\<rparr>)
     (\<lambda>sz. True) (Inr True) 1234
   = Some ([Call_MALLOC_ZERO 520, Call_NtQuerySystemInformation 520, Call_FREE,
            Call_MALLOC_ZERO 768, Call_NtQuerySystemInformation 768] @ rest,
           Inl (NTStatusErr STATUS_INFO_LENGTH_MISMATCH ''NtQuerySystemInformation''))"
  using exe_retry_policy
     [of 1234 "\<lambda>sz. True"
         "\<lambda>n ml sz. \<lparr>nt_status = STATUS_INFO_LENGTH_MISMATCH, nt_MaximumLength = 0x300,
                 nt_Length = 0, nt_Buffer = Some []\<rparr>" "0x300" "Inr True"]
  by (auto simp: NT_SUCCESS_def STATUS_INFO_LENGTH_MISMATCH_def)


subsection \<open>Classification of failures\<close>

lemma exe_error_classified:
  assumes "pid \<noteq> 0" and "psutil_proc_exe Q m alive pid = Some (tr, Inl e)" and "e \<noteq> NoMemory"
  shows "Call_pid_is_running \<in> set tr
       \<and> (alive = Inr False \<longrightarrow> e = NoSuchProcess ''psutil_pid_is_running -> 0'')
       \<and> (alive \<noteq> Inr False \<longrightarrow>
            (\<exists>status. \<not> NT_SUCCESS status \<and> e = NTStatusErr status ''NtQuerySystemInformation''))"
proof (cases "m 520")
  case False
  then show ?thesis using assms by (simp add: psutil_proc_exe_def Let_def)
next
  case True
  let ?rs = "exe_resize Q m 520 (Q 0 520 520)
               [Call_MALLOC_ZERO 520, Call_NtQuerySystemInformation 520]"
  show ?thesis
  proof (cases ?rs)
    case None
    then show ?thesis using assms True by (simp add: psutil_proc_exe_def Let_def)
  next
    case (Some p)
    obtain tr' r where p: "p = (tr', r)" by (cases p)
    show ?thesis
    proof (cases r)
      case (Inl e')
      then have "e' = NoMemory" using Some p exe_resize_error by blast
      then show ?thesis using assms True Some p Inl by (simp add: psutil_proc_exe_def Let_def)
    next
      case (Inr ans')
      show ?thesis
      proof (cases "NT_SUCCESS (nt_status ans')")
        case ok: True
        then show ?thesis using assms True Some p Inr
          by (cases "nt_Buffer ans'") (simp_all add: psutil_proc_exe_def Let_def)
      next
        case False
        then show ?thesis using assms True Some p Inr
          by (auto simp: psutil_proc_exe_def Let_def split: if_splits)
      qed
    qed
  qed
qed

lemma access_denied_status:
  "STATUS_ACCESS_DENIED \<noteq> STATUS_INFO_LENGTH_MISMATCH" "\<not> NT_SUCCESS STATUS_ACCESS_DENIED"
  by (simp_all add: STATUS_ACCESS_DENIED_def STATUS_INFO_LENGTH_MISMATCH_def NT_SUCCESS_def)




text \<open>
  C5, as stated, fails: for pid 0 \<open>psutil_proc_cmdline\<close> returns an empty list, not
  \<open>AccessDenied\<close>.
\<close>

theorem pid0_cmdline_counterexample:
  "psutil_proc_cmdline (Inr 262144) (\<lambda>n. True) (Inl 22) (\<lambda>e. (1, e)) 0 = (0, Returns [])"
  by (simp add: psutil_proc_cmdline_def)

text \<open>
  C5, amended. For pid 0, kill, wait, exe and threads fail with \<open>AccessDenied\<close> before any
  call (no \<open>OpenProcess\<close>, no liveness check), whatever the system would answer; the macOS
  command line and environment return an empty result for pid 0, without a \<open>sysctl\<close>.
\<close>

theorem pid0_outcomes:
  "psutil_proc_kill OpenProcess check_phandle TerminateProcess 0
     = ([], Inl (AccessDenied ''automatically set for PID 0''))
   \<and> psutil_proc_wait OpenProcess W E G 0 timeout
     = ([], Inl (AccessDenied ''automatically set for PID 0''))
   \<and> psutil_proc_exe Q m alive 0
     = Some ([], Inl (AccessDenied ''automatically set for PID 0''))
   \<and> psutil_proc_threads alive snap first_error OpenThread GetThreadTimes 0
     = ([], Inl (AccessDenied ''forced for PID 0''))
   \<and> psutil_proc_cmdline sysctl_argmax mk sysctl_procargs pid_exists 0 = (0, Returns [])
   \<and> psutil_proc_environ sysctl_argmax mk sysctl_procargs pid_exists ck 0 = (0, Returns [])"
  by (simp add: psutil_proc_kill_def psutil_proc_wait_def psutil_proc_exe_def
        psutil_proc_threads_def psutil_proc_cmdline_def psutil_proc_environ_def)

text \<open>
  C8, as stated, fails: when \<open>OpenProcess\<close> reports that the pid does not exist
  (\<open>ERROR_INVALID_PARAMETER\<close>), \<open>psutil_proc_wait\<close> returns \<open>None\<close>, not \<open>NoSuchProcess\<close>.
\<close>

theorem not_running_wait_counterexample:
  "psutil_proc_wait (Inl ERROR_INVALID_PARAMETER) (\<lambda>t. WAIT_OBJECT_0) 0 (Inr 0) 1234 1000
     = ([Call_OpenProcess], Inr None)"
  by (simp add: psutil_proc_wait_def)

text \<open>
  C8, amended. For a pid other than 0 that is not running: \<open>psutil_proc_threads\<close> raises
  \<open>NoSuchProcess\<close> after the liveness check; \<open>psutil_proc_exe\<close> raises \<open>NoSuchProcess\<close>
  when the final status of its native query is a failure, and returns the path of that
  answer, without a liveness check, when the status is a success, on each of its three ways
  (the first answer, the single retry with the reported length, the doubling loop); an
  error of \<open>psutil_proc_exe\<close> other than \<open>NoMemory\<close> is \<open>NoSuchProcess\<close>; a failing
  \<open>KERN_PROCARGS2\<close> call raises \<open>NoSuchProcess\<close>; and \<open>psutil_proc_wait\<close> returns \<open>None\<close>
  when \<open>OpenProcess\<close> reports \<open>ERROR_INVALID_PARAMETER\<close>.
\<close>

theorem not_running_outcomes:
  assumes "pid \<noteq> 0"
  shows "psutil_proc_threads (Inr False) snap first_error OpenThread GetThreadTimes pid
           = ([Call_pid_is_running], Inl (NoSuchProcess ''psutil_pid_is_running -> 0''))
       \<and> (m 520 \<and> nt_status (Q 0 520 520) \<noteq> STATUS_INFO_LENGTH_MISMATCH \<longrightarrow>
            psutil_proc_exe Q m (Inr False) pid
              = Some (if \<not> NT_SUCCESS (nt_status (Q 0 520 520))
                      then ([Call_MALLOC_ZERO 520, Call_NtQuerySystemInformation 520,
                             Call_FREE, Call_pid_is_running],
                            Inl (NoSuchProcess ''psutil_pid_is_running -> 0''))
                      else ([Call_MALLOC_ZERO 520, Call_NtQuerySystemInformation 520,
                             Call_FREE],
                            Inr (case nt_Buffer (Q 0 520 520) of None \<Rightarrow> []
                                 | Some chars \<Rightarrow>
                                     take (unat (nt_Length (Q 0 520 520)) div 2) chars))))
       \<and> (m 520 \<and> nt_status (Q 0 520 520) = STATUS_INFO_LENGTH_MISMATCH
            \<and> 520 < unat (nt_MaximumLength (Q 0 520 520))
            \<and> m (unat (nt_MaximumLength (Q 0 520 520)))
            \<and> ar = Q 1 (nt_MaximumLength (Q 0 520 520))
                        (unat (nt_MaximumLength (Q 0 520 520))) \<longrightarrow>
            psutil_proc_exe Q m (Inr False) pid
              = Some (if \<not> NT_SUCCESS (nt_status ar)
                      then ([Call_MALLOC_ZERO 520, Call_NtQuerySystemInformation 520,
                             Call_FREE,
                             Call_MALLOC_ZERO (unat (nt_MaximumLength (Q 0 520 520))),
                             Call_NtQuerySystemInformation
                               (unat (nt_MaximumLength (Q 0 520 520))),
                             Call_FREE, Call_pid_is_running],
                            Inl (NoSuchProcess ''psutil_pid_is_running -> 0''))
                      else ([Call_MALLOC_ZERO 520, Call_NtQuerySystemInformation 520,
                             Call_FREE,
                             Call_MALLOC_ZERO (unat (nt_MaximumLength (Q 0 520 520))),
                             Call_NtQuerySystemInformation
                               (unat (nt_MaximumLength (Q 0 520 520))),
                             Call_FREE],
                            Inr (case nt_Buffer ar of None \<Rightarrow> []
                                 | Some chars \<Rightarrow> take (unat (nt_Length ar) div 2) chars))))
       \<and> (m 520 \<and> nt_status (Q 0 520 520) = STATUS_INFO_LENGTH_MISMATCH
            \<and> unat (nt_MaximumLength (Q 0 520 520)) \<le> 520
            \<and> 1 \<le> j \<and> j \<le> 7
            \<and> (\<forall>i. 1 \<le> i \<and> i < j \<longrightarrow>
                  nt_status (Q i (ucast (520 * 2 ^ i :: 32 word)) (520 * 2 ^ i))
                    = STATUS_INFO_LENGTH_MISMATCH)
            \<and> (\<forall>i. 1 \<le> i \<and> i \<le> j \<longrightarrow> m (520 * 2 ^ i))
            \<and> ad = Q j (ucast (520 * 2 ^ j :: 32 word)) (520 * 2 ^ j)
            \<and> (j < 7 \<longrightarrow> nt_status ad \<noteq> STATUS_INFO_LENGTH_MISMATCH) \<longrightarrow>
            (\<exists>calls. psutil_proc_exe Q m (Inr False) pid
                = Some (if \<not> NT_SUCCESS (nt_status ad)
                        then ([Call_MALLOC_ZERO 520, Call_NtQuerySystemInformation 520]
                                @ calls @ [Call_FREE, Call_pid_is_running],
                              Inl (NoSuchProcess ''psutil_pid_is_running -> 0''))
                        else ([Call_MALLOC_ZERO 520, Call_NtQuerySystemInformation 520]
                                @ calls @ [Call_FREE],
                              Inr (case nt_Buffer ad of None \<Rightarrow> []
                                   | Some chars \<Rightarrow> take (unat (nt_Length ad) div 2) chars)))
              \<and> Call_pid_is_running \<notin> set calls))
       \<and> (psutil_proc_exe Q m (Inr False) pid = Some (tr, Inl e) \<and> e \<noteq> NoMemory \<longrightarrow>
            e = NoSuchProcess ''psutil_pid_is_running -> 0'')
       \<and> (fst (pid_exists err) = 0 \<longrightarrow>
            snd (psutil_sysctl_procargs (Inl err) pid_exists)
              = Inl (NoSuchProcess ''psutil_pid_exists -> 0''))
       \<and> psutil_proc_wait (Inl ERROR_INVALID_PARAMETER) W E G pid timeout
           = ([Call_OpenProcess], Inr None)"
proof -
  let ?tr0 = "[Call_MALLOC_ZERO 520, Call_NtQuerySystemInformation 520]"
  let ?a0 = "Q 0 520 520"
  let ?ml = "nt_MaximumLength ?a0"
  have threads: "psutil_proc_threads (Inr False) snap first_error OpenThread GetThreadTimes pid
           = ([Call_pid_is_running], Inl (NoSuchProcess ''psutil_pid_is_running -> 0''))"
    using assms by (simp add: psutil_proc_threads_def)
  have first: "m 520 \<and> nt_status ?a0 \<noteq> STATUS_INFO_LENGTH_MISMATCH \<longrightarrow>
            psutil_proc_exe Q m (Inr False) pid
              = Some (if \<not> NT_SUCCESS (nt_status ?a0)
                      then ([Call_MALLOC_ZERO 520, Call_NtQuerySystemInformation 520,
                             Call_FREE, Call_pid_is_running],
                            Inl (NoSuchProcess ''psutil_pid_is_running -> 0''))
                      else ([Call_MALLOC_ZERO 520, Call_NtQuerySystemInformation 520,
                             Call_FREE],
                            Inr (case nt_Buffer ?a0 of None \<Rightarrow> []
                                 | Some chars \<Rightarrow> take (unat (nt_Length ?a0) div 2) chars)))"
  proof
    assume h: "m 520 \<and> nt_status ?a0 \<noteq> STATUS_INFO_LENGTH_MISMATCH"
    then have m: "m 520" by simp
    from h have rs: "exe_resize Q m 520 ?a0 ?tr0 = Some (?tr0, Inr ?a0)"
      by (simp add: exe_resize_first)
    show "psutil_proc_exe Q m (Inr False) pid
              = Some (if \<not> NT_SUCCESS (nt_status ?a0)
                      then ([Call_MALLOC_ZERO 520, Call_NtQuerySystemInformation 520,
                             Call_FREE, Call_pid_is_running],
                            Inl (NoSuchProcess ''psutil_pid_is_running -> 0''))
                      else ([Call_MALLOC_ZERO 520, Call_NtQuerySystemInformation 520,
                             Call_FREE],
                            Inr (case nt_Buffer ?a0 of None \<Rightarrow> []
                                 | Some chars \<Rightarrow> take (unat (nt_Length ?a0) div 2) chars)))"
      using exe_finish [of pid m Q ?tr0 ?a0 "Inr False", OF assms m rs] by simp
  qed
  have retry: "m 520 \<and> nt_status ?a0 = STATUS_INFO_LENGTH_MISMATCH
            \<and> 520 < unat ?ml \<and> m (unat ?ml) \<and> ar = Q 1 ?ml (unat ?ml) \<longrightarrow>
            psutil_proc_exe Q m (Inr False) pid
              = Some (if \<not> NT_SUCCESS (nt_status ar)
                      then ([Call_MALLOC_ZERO 520, Call_NtQuerySystemInformation 520,
                             Call_FREE, Call_MALLOC_ZERO (unat ?ml),
                             Call_NtQuerySystemInformation (unat ?ml),
                             Call_FREE, Call_pid_is_running],
                            Inl (NoSuchProcess ''psutil_pid_is_running -> 0''))
                      else ([Call_MALLOC_ZERO 520, Call_NtQuerySystemInformation 520,
                             Call_FREE, Call_MALLOC_ZERO (unat ?ml),
                             Call_NtQuerySystemInformation (unat ?ml), Call_FREE],
                            Inr (case nt_Buffer ar of None \<Rightarrow> []
                                 | Some chars \<Rightarrow> take (unat (nt_Length ar) div 2) chars)))"
  proof
    assume h: "m 520 \<and> nt_status ?a0 = STATUS_INFO_LENGTH_MISMATCH
            \<and> 520 < unat ?ml \<and> m (unat ?ml) \<and> ar = Q 1 ?ml (unat ?ml)"
    then have m: "m 520" and s: "nt_status ?a0 = STATUS_INFO_LENGTH_MISMATCH"
      and l: "520 < unat ?ml" and m1: "m (unat ?ml)" and ar: "ar = Q 1 ?ml (unat ?ml)"
      by simp_all
    have rs: "exe_resize Q m 520 ?a0 ?tr0
           = Some (?tr0 @ [Call_FREE, Call_MALLOC_ZERO (unat ?ml),
                         Call_NtQuerySystemInformation (unat ?ml)], Inr ar)"
      unfolding ar by (rule exe_resize_retry [of ?a0 m Q ?tr0, OF s l m1])
    show "psutil_proc_exe Q m (Inr False) pid
              = Some (if \<not> NT_SUCCESS (nt_status ar)
                      then ([Call_MALLOC_ZERO 520, Call_NtQuerySystemInformation 520,
                             Call_FREE, Call_MALLOC_ZERO (unat ?ml),
                             Call_NtQuerySystemInformation (unat ?ml),
                             Call_FREE, Call_pid_is_running],
                            Inl (NoSuchProcess ''psutil_pid_is_running -> 0''))
                      else ([Call_MALLOC_ZERO 520, Call_NtQuerySystemInformation 520,
                             Call_FREE, Call_MALLOC_ZERO (unat ?ml),
                             Call_NtQuerySystemInformation (unat ?ml), Call_FREE],
                            Inr (case nt_Buffer ar of None \<Rightarrow> []
                                 | Some chars \<Rightarrow> take (unat (nt_Length ar) div 2) chars)))"
      using exe_finish [of pid m Q _ ar "Inr False", OF assms m rs] by simp
  qed
  have doubling: "m 520 \<and> nt_status ?a0 = STATUS_INFO_LENGTH_MISMATCH
            \<and> unat ?ml \<le> 520
            \<and> 1 \<le> j \<and> j \<le> 7
            \<and> (\<forall>i. 1 \<le> i \<and> i < j \<longrightarrow>
                  nt_status (Q i (ucast (520 * 2 ^ i :: 32 word)) (520 * 2 ^ i))
                    = STATUS_INFO_LENGTH_MISMATCH)
            \<and> (\<forall>i. 1 \<le> i \<and> i \<le> j \<longrightarrow> m (520 * 2 ^ i))
            \<and> ad = Q j (ucast (520 * 2 ^ j :: 32 word)) (520 * 2 ^ j)
            \<and> (j < 7 \<longrightarrow> nt_status ad \<noteq> STATUS_INFO_LENGTH_MISMATCH) \<longrightarrow>
            (\<exists>calls. psutil_proc_exe Q m (Inr False) pid
                = Some (if \<not> NT_SUCCESS (nt_status ad)
                        then ([Call_MALLOC_ZERO 520, Call_NtQuerySystemInformation 520]
                                @ calls @ [Call_FREE, Call_pid_is_running],
                              Inl (NoSuchProcess ''psutil_pid_is_running -> 0''))
                        else ([Call_MALLOC_ZERO 520, Call_NtQuerySystemInformation 520]
                                @ calls @ [Call_FREE],
                              Inr (case nt_Buffer ad of None \<Rightarrow> []
                                   | Some chars \<Rightarrow> take (unat (nt_Length ad) div 2) chars)))
              \<and> Call_pid_is_running \<notin> set calls)"
  proof
    assume h: "m 520 \<and> nt_status ?a0 = STATUS_INFO_LENGTH_MISMATCH
            \<and> unat ?ml \<le> 520
            \<and> 1 \<le> j \<and> j \<le> 7
            \<and> (\<forall>i. 1 \<le> i \<and> i < j \<longrightarrow>
                  nt_status (Q i (ucast (520 * 2 ^ i :: 32 word)) (520 * 2 ^ i))
                    = STATUS_INFO_LENGTH_MISMATCH)
            \<and> (\<forall>i. 1 \<le> i \<and> i \<le> j \<longrightarrow> m (520 * 2 ^ i))
            \<and> ad = Q j (ucast (520 * 2 ^ j :: 32 word)) (520 * 2 ^ j)
            \<and> (j < 7 \<longrightarrow> nt_status ad \<noteq> STATUS_INFO_LENGTH_MISMATCH)"
    then have m: "m 520" and s: "nt_status ?a0 = STATUS_INFO_LENGTH_MISMATCH"
      and l: "unat ?ml \<le> 520" and j1: "1 \<le> j" and j7: "j \<le> 7"
      and h5: "\<forall>i. 1 \<le> i \<and> i < j \<longrightarrow>
              nt_status (Q i (ucast (520 * 2 ^ i :: 32 word)) (520 * 2 ^ i))
                = STATUS_INFO_LENGTH_MISMATCH"
      and h6: "\<forall>i. 1 \<le> i \<and> i \<le> j \<longrightarrow> m (520 * 2 ^ i)"
      and ad: "ad = Q j (ucast (520 * 2 ^ j :: 32 word)) (520 * 2 ^ j)"
      and h7: "j < 7 \<longrightarrow> nt_status ad \<noteq> STATUS_INFO_LENGTH_MISMATCH"
      by blast+
    have h7': "j < 7 \<longrightarrow> nt_status (Q j (ucast (520 * 2 ^ j :: 32 word)) (520 * 2 ^ j))
                 \<noteq> STATUS_INFO_LENGTH_MISMATCH"
      using h7 unfolding ad .
    from exe_resize_doubling [of ?a0 j Q m ?tr0, OF s l j1 j7 h5 h6 h7']
    obtain rest where rs: "exe_resize Q m 520 ?a0 ?tr0 = Some (?tr0 @ rest, Inr ad)"
      and nr: "Call_pid_is_running \<notin> set rest" unfolding ad by blast
    have "psutil_proc_exe Q m (Inr False) pid
                = Some (if \<not> NT_SUCCESS (nt_status ad)
                        then ([Call_MALLOC_ZERO 520, Call_NtQuerySystemInformation 520]
                                @ rest @ [Call_FREE, Call_pid_is_running],
                              Inl (NoSuchProcess ''psutil_pid_is_running -> 0''))
                        else ([Call_MALLOC_ZERO 520, Call_NtQuerySystemInformation 520]
                                @ rest @ [Call_FREE],
                              Inr (case nt_Buffer ad of None \<Rightarrow> []
                                   | Some chars \<Rightarrow> take (unat (nt_Length ad) div 2) chars)))"
      using exe_finish [of pid m Q "?tr0 @ rest" ad "Inr False", OF assms m rs] by simp
    with nr show "\<exists>calls. psutil_proc_exe Q m (Inr False) pid
                = Some (if \<not> NT_SUCCESS (nt_status ad)
                        then ([Call_MALLOC_ZERO 520, Call_NtQuerySystemInformation 520]
                                @ calls @ [Call_FREE, Call_pid_is_running],
                              Inl (NoSuchProcess ''psutil_pid_is_running -> 0''))
                        else ([Call_MALLOC_ZERO 520, Call_NtQuerySystemInformation 520]
                                @ calls @ [Call_FREE],
                              Inr (case nt_Buffer ad of None \<Rightarrow> []
                                   | Some chars \<Rightarrow> take (unat (nt_Length ad) div 2) chars)))
              \<and> Call_pid_is_running \<notin> set calls" by blast
  qed
  have raised: "psutil_proc_exe Q m (Inr False) pid = Some (tr, Inl e) \<and> e \<noteq> NoMemory \<longrightarrow>
            e = NoSuchProcess ''psutil_pid_is_running -> 0''"
    using exe_error_classified [of pid Q m "Inr False" tr e] assms by blast
  have procargs: "fst (pid_exists err) = 0 \<longrightarrow>
            snd (psutil_sysctl_procargs (Inl err) pid_exists)
              = Inl (NoSuchProcess ''psutil_pid_exists -> 0'')"
    by (cases "pid_exists err") (simp add: psutil_sysctl_procargs_def)
  have wait: "psutil_proc_wait (Inl ERROR_INVALID_PARAMETER) W E G pid timeout
           = ([Call_OpenProcess], Inr None)"
    using assms by (simp add: psutil_proc_wait_def)
  from threads first retry doubling raised procargs wait show ?thesis by (intro conjI)
qed

theorem not_running_outcomes_witness:
  "psutil_proc_threads (Inr False) (Inr []) 18 (\<lambda>t. None) (\<lambda>t. Inl 5) 1234
     = ([Call_pid_is_running], Inl (NoSuchProcess ''psutil_pid_is_running -> 0''))
   \<and> psutil_proc_exe (\<lambda>n ml sz. \<lparr>nt_status = STATUS_ACCESS_DENIED, nt_MaximumLength = ml,
                  nt_Length = 0, nt_Buffer = Some []\<rparr>) (\<lambda>sz. True) (Inr False) 1234
      = Some ([Call_MALLOC_ZERO 520, Call_NtQuerySystemInformation 520, Call_FREE,
               Call_pid_is_running], Inl (NoSuchProcess ''psutil_pid_is_running -> 0''))
   \<and> psutil_proc_exe (\<lambda>n ml sz. \<lparr>nt_status = 0, nt_MaximumLength = ml,
                  nt_Length = 4, nt_Buffer = Some [0x43, 0x3A, 0x5C]\<rparr>)
        (\<lambda>sz. True) (Inr False) 1234
      = Some ([Call_MALLOC_ZERO 520, Call_NtQuerySystemInformation 520, Call_FREE],
              Inr [0x43, 0x3A])
   \<and> psutil_proc_exe
        (\<lambda>n ml sz. \<lparr>nt_status = (if n = 0 then STATUS_INFO_LENGTH_MISMATCH else 0),
                     nt_MaximumLength = 600, nt_Length = 4,
                     nt_Buffer = Some [0x43, 0x3A, 0x5C]\<rparr>)
        (\<lambda>sz. True) (Inr False) 1234
      = Some ([Call_MALLOC_ZERO 520, Call_NtQuerySystemInformation 520, Call_FREE,
               Call_MALLOC_ZERO 600, Call_NtQuerySystemInformation 600, Call_FREE],
              Inr [0x43, 0x3A])
   \<and> (\<exists>calls. psutil_proc_exe
        (\<lambda>n ml sz. \<lparr>nt_status = (if n < 3 then STATUS_INFO_LENGTH_MISMATCH
                                   else STATUS_ACCESS_DENIED),
                     nt_MaximumLength = 0, nt_Length = 0, nt_Buffer = Some []\<rparr>)
        (\<lambda>sz. True) (Inr False) 1234
      = Some ([Call_MALLOC_ZERO 520, Call_NtQuerySystemInformation 520] @ calls
                @ [Call_FREE, Call_pid_is_running],
              Inl (NoSuchProcess ''psutil_pid_is_running -> 0''))
      \<and> Call_pid_is_running \<notin> set calls)
   \<and> snd (psutil_sysctl_procargs (Inl 3) (\<lambda>e. (0, e)))
              = Inl (NoSuchProcess ''psutil_pid_exists -> 0'')
   \<and> psutil_proc_wait (Inl ERROR_INVALID_PARAMETER) (\<lambda>t. WAIT_OBJECT_0) 0 (Inr 0) 1234 1000
           = ([Call_OpenProcess], Inr None)"
proof -
  let ?Qd = "\<lambda>(n::nat) (ml::16 word) (sz::nat).
               \<lparr>nt_status = STATUS_ACCESS_DENIED, nt_MaximumLength = ml,
                nt_Length = 0, nt_Buffer = Some []\<rparr>"
  let ?Qs = "\<lambda>(n::nat) (ml::16 word) (sz::nat).
               \<lparr>nt_status = 0, nt_MaximumLength = ml,
                nt_Length = 4, nt_Buffer = Some [0x43, 0x3A, 0x5C]\<rparr>"
  let ?Qr = "\<lambda>(n::nat) (ml::16 word) (sz::nat).
               \<lparr>nt_status = (if n = 0 then STATUS_INFO_LENGTH_MISMATCH else 0),
                nt_MaximumLength = 600, nt_Length = 4,
                nt_Buffer = Some [0x43, 0x3A, 0x5C]\<rparr>"
  let ?Q3 = "\<lambda>(n::nat) (ml::16 word) (sz::nat).
               \<lparr>nt_status = (if n < 3 then STATUS_INFO_LENGTH_MISMATCH
                              else STATUS_ACCESS_DENIED),
                nt_MaximumLength = 0, nt_Length = 0, nt_Buffer = Some []\<rparr>"
  have ok: "NT_SUCCESS 0" "(0 :: 32 word) \<noteq> STATUS_INFO_LENGTH_MISMATCH"
    by (simp_all add: NT_SUCCESS_def STATUS_INFO_LENGTH_MISMATCH_def)
  note st = access_denied_status ok
  have p: "(1234 :: 32 word) \<noteq> 0" by simp
  have a: "psutil_proc_threads (Inr False) (Inr []) 18 (\<lambda>t. None) (\<lambda>t. Inl 5) 1234
     = ([Call_pid_is_running], Inl (NoSuchProcess ''psutil_pid_is_running -> 0''))
   \<and> psutil_proc_exe ?Qd (\<lambda>sz. True) (Inr False) 1234
      = Some ([Call_MALLOC_ZERO 520, Call_NtQuerySystemInformation 520, Call_FREE,
               Call_pid_is_running], Inl (NoSuchProcess ''psutil_pid_is_running -> 0''))
   \<and> snd (psutil_sysctl_procargs (Inl 3) (\<lambda>e. (0, e)))
              = Inl (NoSuchProcess ''psutil_pid_exists -> 0'')
   \<and> psutil_proc_wait (Inl ERROR_INVALID_PARAMETER) (\<lambda>t. WAIT_OBJECT_0) 0 (Inr 0) 1234 1000
           = ([Call_OpenProcess], Inr None)"
    using not_running_outcomes
      [where pid = 1234 and snap = "Inr []" and first_error = 18 and OpenThread = "\<lambda>t. None"
         and GetThreadTimes = "\<lambda>t. Inl 5" and m = "\<lambda>sz. True" and Q = ?Qd
         and ar = "?Qd 1 520 520" and j = 1 and ad = "?Qd 1 0 1040" and tr = "[]"
         and e = NoMemory and pid_exists = "\<lambda>e. (0, e)" and err = 3
         and W = "\<lambda>t. WAIT_OBJECT_0" and E = 0 and G = "Inr 0" and timeout = 1000, OF p]
    by (simp add: st)
  have b: "psutil_proc_exe ?Qs (\<lambda>sz. True) (Inr False) 1234
      = Some ([Call_MALLOC_ZERO 520, Call_NtQuerySystemInformation 520, Call_FREE],
              Inr [0x43, 0x3A])"
    using not_running_outcomes
      [where pid = 1234 and snap = "Inr []" and first_error = 18 and OpenThread = "\<lambda>t. None"
         and GetThreadTimes = "\<lambda>t. Inl 5" and m = "\<lambda>sz. True" and Q = ?Qs
         and ar = "?Qs 1 520 520" and j = 1 and ad = "?Qs 1 0 1040" and tr = "[]"
         and e = NoMemory and pid_exists = "\<lambda>e. (0, e)" and err = 3
         and W = "\<lambda>t. WAIT_OBJECT_0" and E = 0 and G = "Inr 0" and timeout = 1000, OF p]
    by (simp add: st)
  have c: "psutil_proc_exe ?Qr (\<lambda>sz. True) (Inr False) 1234
      = Some ([Call_MALLOC_ZERO 520, Call_NtQuerySystemInformation 520, Call_FREE,
               Call_MALLOC_ZERO 600, Call_NtQuerySystemInformation 600, Call_FREE],
              Inr [0x43, 0x3A])"
    using not_running_outcomes
      [where pid = 1234 and snap = "Inr []" and first_error = 18 and OpenThread = "\<lambda>t. None"
         and GetThreadTimes = "\<lambda>t. Inl 5" and m = "\<lambda>sz. True" and Q = ?Qr
         and ar = "?Qr 1 600 600" and j = 1 and ad = "?Qr 1 0 1040" and tr = "[]"
         and e = NoMemory and pid_exists = "\<lambda>e. (0, e)" and err = 3
         and W = "\<lambda>t. WAIT_OBJECT_0" and E = 0 and G = "Inr 0" and timeout = 1000, OF p]
    by (simp add: st)
  have d: "\<exists>calls. psutil_proc_exe ?Q3 (\<lambda>sz. True) (Inr False) 1234
      = Some ([Call_MALLOC_ZERO 520, Call_NtQuerySystemInformation 520] @ calls
                @ [Call_FREE, Call_pid_is_running],
              Inl (NoSuchProcess ''psutil_pid_is_running -> 0''))
      \<and> Call_pid_is_running \<notin> set calls"
    using not_running_outcomes
      [where pid = 1234 and snap = "Inr []" and first_error = 18 and OpenThread = "\<lambda>t. None"
         and GetThreadTimes = "\<lambda>t. Inl 5" and m = "\<lambda>sz. True" and Q = ?Q3
         and ar = "?Q3 1 0 0" and j = 3 and ad = "?Q3 3 0 4160" and tr = "[]"
         and e = NoMemory and pid_exists = "\<lambda>e. (0, e)" and err = 3
         and W = "\<lambda>t. WAIT_OBJECT_0" and E = 0 and G = "Inr 0" and timeout = 1000, OF p]
    by (simp add: st)
  from a b c d show ?thesis by simp
qed

subsection \<open>Decoding a truncated argument space\<close>

text \<open>
  A well-formed buffer for comparison: two arguments, then the environment \<open>A=B\<close>,
  \<open>C=D\<close> and the empty string that ends it. The environment decoder reads inside the 20
  declared bytes and returns the block.
\<close>

lemma replicate_two: "replicate 2 (0 :: byte) = [0, 0]"
  by (simp add: numeral_2_eq_2)

lemma environ_decode_complete_buffer:
  "environ_decode (\<lambda>n. True)
     [2,0,0,0, 0x2F,0x78,0, 0x61,0, 0x62,0, 0x41,0x3D,0x42,0, 0x43,0x3D,0x44,0, 0, 0, 0] 20
   = (20, Returns [0x41,0x3D,0x42,0, 0x43,0x3D,0x44,0, 0])"
  by (simp add: environ_decode_def read_nargs_def memchr0_def ptr_diff_def peek_def Let_def
        memcpy_at_def replicate_two skip_nuls.simps environ_skip_args.simps
        environ_copy.simps)

text \<open>
  C3. The buffer declares \<open>argc = 5\<close> and 11 bytes: the path \<open>/x\<close> and the two fields
  \<open>a\<close> and \<open>b\<close>; the allocation goes on for two more bytes. The command-line decoder
  returns the two fields and reads below index 11. The environment decoder reads the byte
  at index 11, the declared end, and then one byte of its empty block. With a path that
  has no NUL inside the 11 declared bytes, the command-line decoder reads up to index 12.
\<close>

theorem truncated_buffer_reads:
  "cmdline_decode [5,0,0,0, 0x2F,0x78,0, 0x61,0, 0x62,0, 0x41,0x41] 11
     = (11, Returns [[0x61], [0x62]])
   \<and> environ_decode (\<lambda>n. True) [5,0,0,0, 0x2F,0x78,0, 0x61,0, 0x62,0, 0x41,0x41] 11
     = (12, Overread)
   \<and> cmdline_decode [5,0,0,0, 0x2F,0x78,0x79, 0x61,0x62, 0x62,0x63, 0x41,0] 11
     = (13, Returns [])"
proof (intro conjI)
  show "cmdline_decode [5,0,0,0, 0x2F,0x78,0, 0x61,0, 0x62,0, 0x41,0x41] 11
     = (11, Returns [[0x61], [0x62]])"
    by (simp add: cmdline_decode_def read_nargs_def strlen_def c_string_def peek_def Let_def
          skip_nuls.simps cmdline_loop.simps)
  show "environ_decode (\<lambda>n. True) [5,0,0,0, 0x2F,0x78,0, 0x61,0, 0x62,0, 0x41,0x41] 11
     = (12, Overread)"
    by (simp add: environ_decode_def read_nargs_def memchr0_def ptr_diff_def peek_def Let_def
          skip_nuls.simps environ_skip_args.simps environ_copy.simps)
  show "cmdline_decode [5,0,0,0, 0x2F,0x78,0x79, 0x61,0x62, 0x62,0x63, 0x41,0] 11
     = (13, Returns [])"
    by (simp add: cmdline_decode_def read_nargs_def strlen_def c_string_def peek_def Let_def
          skip_nuls.simps cmdline_loop.simps)
qed

subsection \<open>The decoders on every truncated buffer\<close>

text \<open>
  The buffers considered: four bytes of \<open>argc\<close>, the path and its NUL, the fields \<open>args\<close>
  each with its NUL, a last piece \<open>tail\<close> without NUL, and whatever the allocation holds
  after the declared end. Leading empty fields are the NUL padding after the path.
\<close>

lemma packed_fields_simps [simp]:
  "packed_fields [] = []"
  "packed_fields (f # fs) = f @ [0] @ packed_fields fs"
  by (simp_all add: packed_fields_def)

lemma peek_append: "peek (A @ c # R) (length A) = Some c"
  by (simp add: peek_def)

lemma cmdline_loop_scan:
  assumes "0 \<notin> set c2" and "buf = A @ c2 @ R" and "q = length A"
    and "q + length c2 \<le> arg_end" and "0 < n" and "q \<le> hi"
  shows "cmdline_loop buf arg_end q cur n acc hi
           = cmdline_loop buf arg_end (q + length c2) cur n acc (max hi (q + length c2))"
  using assms
proof (induction c2 arbitrary: A q hi)
  case Nil
  then show ?case by (simp add: max_absorb1)
next
  case (Cons c c2)
  have lt: "q < arg_end" using Cons.prems(4) by simp
  have pk: "peek buf q = Some c" using Cons.prems(2,3) peek_append [of A c "c2 @ R"] by simp
  have nz: "c \<noteq> 0" using Cons.prems(1) by auto
  have step: "cmdline_loop buf arg_end q cur n acc hi
                = cmdline_loop buf arg_end (Suc q) cur n acc (max hi (Suc q))"
    using lt pk nz Cons.prems(5) by (subst cmdline_loop.simps) simp
  have "cmdline_loop buf arg_end (Suc q) cur n acc (max hi (Suc q))
          = cmdline_loop buf arg_end (Suc q + length c2) cur n acc
              (max (max hi (Suc q)) (Suc q + length c2))"
  proof (rule Cons.IH)
    show "0 \<notin> set c2" using Cons.prems(1) by simp
    show "buf = (A @ [c]) @ c2 @ R" using Cons.prems(2) by simp
    show "Suc q = length (A @ [c])" using Cons.prems(3) by simp
    show "Suc q + length c2 \<le> arg_end" using Cons.prems(4) by simp
    show "0 < n" by (rule Cons.prems(5))
    show "Suc q \<le> max hi (Suc q)" by simp
  qed
  moreover have "max (max hi (Suc q)) (Suc q + length c2) = max hi (q + length (c # c2))"
    by simp
  ultimately show ?case using step by simp
qed

lemma c_string_field:
  assumes "0 \<notin> set c"
  shows "c_string (A @ c @ [0] @ R) (length A) = c"
proof -
  have "takeWhile (\<lambda>x. x \<noteq> 0) (c @ 0 # R) = c"
    using assms by (induction c) auto
  then show ?thesis by (simp add: c_string_def)
qed

lemma cmdline_loop_field_end:
  assumes "buf = A @ c @ [0] @ R" and "cur = length A" and "p = length A + length c"
    and "0 \<notin> set c" and "p < arg_end" and "0 < n"
  shows "cmdline_loop buf arg_end p cur n acc hi
           = cmdline_loop buf arg_end (Suc p) (Suc p) (n - 1) (acc @ [c]) (max hi (Suc p))"
proof -
  have pk: "peek buf p = Some 0"
    using assms(1,3) peek_append [of "A @ c" 0 R] by simp
  have cs: "c_string buf cur = c" using assms(1,2,4) c_string_field by simp
  have "Suc (cur + length (c_string buf cur)) = Suc p" using cs assms(2,3) by simp
  then show ?thesis using pk assms(5,6) cs
    by (subst cmdline_loop.simps) simp
qed

lemma cmdline_loop_fields:
  assumes "\<forall>a\<in>set fs. 0 \<notin> set a" and "0 \<notin> set tail"
    and "buf = A @ packed_fields fs @ tail @ R" and "p = length A"
    and "arg_end = p + length (packed_fields fs) + length tail"
    and "p \<le> hi" and "hi \<le> arg_end"
  shows "\<exists>hi'. cmdline_loop buf arg_end p p n acc hi = Some (hi', acc @ take (nat n) fs)
           \<and> hi' \<le> arg_end"
  using assms
proof (induction fs arbitrary: A p n acc hi)
  case Nil
  show ?case
  proof (cases "0 < n")
    case False
    then have "cmdline_loop buf arg_end p p n acc hi = Some (hi, acc)"
      by (subst cmdline_loop.simps) simp
    then show ?thesis using Nil.prems(7) by simp
  next
    case True
    have "cmdline_loop buf arg_end p p n acc hi
            = cmdline_loop buf arg_end (p + length tail) p n acc (max hi (p + length tail))"
      using Nil.prems True by (intro cmdline_loop_scan [where A = A and R = R]) simp_all
    also have "\<dots> = Some (max hi (p + length tail), acc)"
      using Nil.prems(5) by (subst cmdline_loop.simps) simp
    finally show ?thesis using Nil.prems(5,7) by simp
  qed
next
  case (Cons f fs)
  show ?case
  proof (cases "0 < n")
    case False
    then have "cmdline_loop buf arg_end p p n acc hi = Some (hi, acc)"
      by (subst cmdline_loop.simps) simp
    then show ?thesis using Cons.prems(7) False by simp
  next
    case True
    have f0: "0 \<notin> set f" using Cons.prems(1) by simp
    have buf: "buf = A @ f @ [0] @ (packed_fields fs @ tail @ R)"
      using Cons.prems(3) by simp
    have in_range: "p + length f < arg_end" using Cons.prems(5) by simp
    have scan: "cmdline_loop buf arg_end p p n acc hi
            = cmdline_loop buf arg_end (p + length f) p n acc (max hi (p + length f))"
      using f0 buf Cons.prems(4,6) in_range True
      by (intro cmdline_loop_scan [where A = A and R = "[0] @ packed_fields fs @ tail @ R"])
         simp_all
    have fin: "cmdline_loop buf arg_end (p + length f) p n acc (max hi (p + length f))
            = cmdline_loop buf arg_end (Suc (p + length f)) (Suc (p + length f)) (n - 1)
                (acc @ [f]) (max (max hi (p + length f)) (Suc (p + length f)))"
      using buf Cons.prems(4) f0 in_range True
      by (intro cmdline_loop_field_end [where A = A and R = "packed_fields fs @ tail @ R"])
         simp_all
    have "\<exists>hi'. cmdline_loop buf arg_end (Suc (p + length f)) (Suc (p + length f)) (n - 1)
                (acc @ [f]) (max (max hi (p + length f)) (Suc (p + length f)))
             = Some (hi', (acc @ [f]) @ take (nat (n - 1)) fs) \<and> hi' \<le> arg_end"
    proof (rule Cons.IH)
      show "\<forall>a\<in>set fs. 0 \<notin> set a" using Cons.prems(1) by simp
      show "0 \<notin> set tail" by (rule Cons.prems(2))
      show "buf = (A @ f @ [0]) @ packed_fields fs @ tail @ R" using buf by simp
      show "Suc (p + length f) = length (A @ f @ [0])" using Cons.prems(4) by simp
      show "arg_end = Suc (p + length f) + length (packed_fields fs) + length tail"
        using Cons.prems(5) by simp
      show "Suc (p + length f) \<le> max (max hi (p + length f)) (Suc (p + length f))" by simp
      show "max (max hi (p + length f)) (Suc (p + length f)) \<le> arg_end"
        using Cons.prems(7) in_range by simp
    qed
    moreover have "take (nat n) (f # fs) = f # take (nat (n - 1)) fs"
      using True by (cases "nat n") (simp_all add: nat_diff_distrib)
    ultimately show ?thesis using scan fin by simp
  qed
qed

lemma skip_nuls_zeros:
  assumes "buf = A @ replicate j 0 @ R" and "p = length A" and "p + j \<le> arg_end"
    and "p + j < arg_end \<longrightarrow> R \<noteq> [] \<and> hd R \<noteq> 0" and "p \<le> hi" and "hi \<le> arg_end"
  shows "\<exists>hi'. skip_nuls buf arg_end p hi = Some (hi', p + j) \<and> p + j \<le> hi' \<and> hi' \<le> arg_end"
  using assms
proof (induction j arbitrary: A p hi)
  case 0
  show ?case
  proof (cases "p < arg_end")
    case False
    then have "skip_nuls buf arg_end p hi = Some (hi, p)"
      by (subst skip_nuls.simps) simp
    then show ?thesis using "0.prems"(5,6) by simp
  next
    case True
    then obtain r R' where R: "R = r # R'" and r: "r \<noteq> 0"
      using "0.prems"(4) by (cases R) auto
    have "peek buf p = Some r" using "0.prems"(1,2) R peek_append [of A r R'] by simp
    then have "skip_nuls buf arg_end p hi = Some (max hi (Suc p), p)"
      using True r by (subst skip_nuls.simps) simp
    then show ?thesis using True "0.prems"(6) by simp
  qed
next
  case (Suc j)
  have lt: "p < arg_end" using Suc.prems(3) by simp
  have "peek buf p = Some 0"
    using Suc.prems(1,2) peek_append [of A 0 "replicate j 0 @ R"] by simp
  then have step: "skip_nuls buf arg_end p hi
                     = skip_nuls buf arg_end (Suc p) (max hi (Suc p))"
    using lt by (subst skip_nuls.simps) simp
  have "\<exists>hi'. skip_nuls buf arg_end (Suc p) (max hi (Suc p)) = Some (hi', Suc p + j)
          \<and> Suc p + j \<le> hi' \<and> hi' \<le> arg_end"
  proof (rule Suc.IH)
    show "buf = (A @ [0]) @ replicate j 0 @ R" using Suc.prems(1) by simp
    show "Suc p = length (A @ [0])" using Suc.prems(2) by simp
    show "Suc p + j \<le> arg_end" using Suc.prems(3) by simp
    show "Suc p + j < arg_end \<longrightarrow> R \<noteq> [] \<and> hd R \<noteq> 0" using Suc.prems(4) by simp
    show "Suc p \<le> max hi (Suc p)" by simp
    show "max hi (Suc p) \<le> arg_end" using Suc.prems(6) lt by simp
  qed
  then show ?case using step by simp
qed

lemma packed_fields_leading:
  "packed_fields args
     = replicate (length (takeWhile (\<lambda>a. a = []) args)) 0
       @ packed_fields (dropWhile (\<lambda>a. a = []) args)"
proof (induction args)
  case Nil
  show ?case by simp
next
  case (Cons a args)
  show ?case
  proof (cases "a = []")
    case True
    then show ?thesis using Cons.IH by simp
  next
    case False
    then show ?thesis by simp
  qed
qed

lemma packed_fields_Nil: "packed_fields args = [] \<Longrightarrow> args = []"
  by (cases args) simp_all

lemma strlen_path:
  assumes "length hdr = 4" and "0 \<notin> set path"
  shows "strlen (hdr @ path @ [0] @ X) 4 = Some (length path)"
proof -
  have cs: "c_string (hdr @ path @ [0] @ X) (length hdr) = path"
    using assms(2) by (rule c_string_field)
  have dr: "drop 4 (hdr @ path @ [0] @ X) = path @ [0] @ X"
    using assms(1) by simp
  have "0 \<in> set (drop 4 (hdr @ path @ [0] @ X))"
    unfolding dr by simp
  then have "strlen (hdr @ path @ [0] @ X) 4
               = Some (length (c_string (hdr @ path @ [0] @ X) 4))"
    unfolding strlen_def by (rule if_P)
  then show ?thesis using cs assms(1) by simp
qed

lemma after_padding_nonzero:
  assumes "\<forall>a\<in>set args. 0 \<notin> set a" and "0 \<notin> set tail"
    and "args' = dropWhile (\<lambda>a. a = []) args"
    and "0 < length (packed_fields args') + length tail"
  shows "packed_fields args' @ tail @ rest \<noteq> []
         \<and> hd (packed_fields args' @ tail @ rest) \<noteq> 0"
proof (cases args')
  case Nil
  then have "tail \<noteq> []" using assms(4) by simp
  then obtain t ts where t: "tail = t # ts" by (cases tail) auto
  then have "t \<noteq> 0" using assms(2) by auto
  then show ?thesis using Nil t by simp
next
  case (Cons f fs)
  have ne: "dropWhile (\<lambda>a. a = []) args \<noteq> []" using Cons assms(3) by simp
  have "f \<in> set (dropWhile (\<lambda>a. a = []) args)" using Cons assms(3) by simp
  then have "f \<in> set args" by (rule set_dropWhileD)
  then have f0: "0 \<notin> set f" using assms(1) by simp
  have "hd (dropWhile (\<lambda>a. a = []) args) \<noteq> []" using hd_dropWhile [OF ne] .
  then have "f \<noteq> []" using Cons assms(3) by simp
  then obtain c cs where c: "f = c # cs" by (cases f) auto
  then have "c \<noteq> 0" using f0 by auto
  then show ?thesis using Cons c by simp
qed

text \<open>
  The command-line decoder returns the fields present, at most \<open>argc\<close> of them, and reads
  below the declared end, whenever the path is terminated inside the declared length.
\<close>

lemma cmdline_decode_fields:
  assumes "length hdr = 4" and "0 \<notin> set path" and "\<forall>a\<in>set args. 0 \<notin> set a"
    and "0 \<notin> set tail"
    and "procargs = hdr @ path @ [0] @ packed_fields args @ tail @ rest"
    and "argmax = 5 + length path + length (packed_fields args) + length tail"
    and "read_nargs procargs = Some nargs"
  shows "\<exists>hi. cmdline_decode procargs argmax
                = (hi, Returns (take (nat nargs) (dropWhile (\<lambda>a. a = []) args)))
              \<and> hi \<le> argmax"
proof -
  define j where "j = length (takeWhile (\<lambda>a. a = []) args)"
  define args' where "args' = dropWhile (\<lambda>a. a = []) args"
  define P where "P = 5 + length path"
  have packed: "packed_fields args = replicate j 0 @ packed_fields args'"
    unfolding j_def args'_def by (rule packed_fields_leading)
  have sl: "strlen procargs 4 = Some (length path)"
    unfolding assms(5) using assms(1,2) by (rule strlen_path)
  have P4: "4 + length path + 1 = P" by (simp add: P_def)
  show ?thesis
  proof (cases "P = argmax")
    case True
    then have "packed_fields args = []" using assms(6) by (simp add: P_def)
    then have "args = []" by (rule packed_fields_Nil)
    moreover have "cmdline_decode procargs argmax = (P, Returns [])"
      using True assms(7) sl P4 by (simp add: cmdline_decode_def Let_def)
    ultimately show ?thesis using True by simp
  next
    case False
    have args'0: "\<forall>a\<in>set args'. 0 \<notin> set a"
      using assms(3) unfolding args'_def by (meson set_dropWhileD)
    have amax: "argmax = P + j + length (packed_fields args') + length tail"
      using assms(6) packed by (simp add: P_def)
    have buf1: "procargs = (hdr @ path @ [0]) @ replicate j 0 @ (packed_fields args' @ tail @ rest)"
      using assms(5) packed by simp
    have lenA: "P = length (hdr @ path @ [0])" using assms(1) by (simp add: P_def)
    have nz: "P + j < argmax \<longrightarrow>
        packed_fields args' @ tail @ rest \<noteq> [] \<and> hd (packed_fields args' @ tail @ rest) \<noteq> 0"
    proof
      assume "P + j < argmax"
      then have "0 < length (packed_fields args') + length tail" using amax by simp
      with assms(3,4) args'_def show "packed_fields args' @ tail @ rest \<noteq> []
          \<and> hd (packed_fields args' @ tail @ rest) \<noteq> 0"
        by (intro after_padding_nonzero [where args = args]) simp_all
    qed
    have "P + j \<le> argmax" "P \<le> P" "P \<le> argmax" using amax by simp_all
    from skip_nuls_zeros [OF buf1 lenA this(1) nz this(2,3)]
    obtain hi1 where skip: "skip_nuls procargs argmax P P = Some (hi1, P + j)"
      and hi1: "P + j \<le> hi1" "hi1 \<le> argmax" by blast
    have buf2: "procargs = (hdr @ path @ [0] @ replicate j 0) @ packed_fields args' @ tail @ rest"
      using buf1 by simp
    have lenA2: "P + j = length (hdr @ path @ [0] @ replicate j 0)"
      using assms(1) by (simp add: P_def)
    have amax2: "argmax = (P + j) + length (packed_fields args') + length tail"
      using amax by simp
    from cmdline_loop_fields [OF args'0 assms(4) buf2 lenA2 amax2 hi1, of nargs "[]"]
    obtain hi' where loop: "cmdline_loop procargs argmax (P + j) (P + j) nargs [] hi1
                         = Some (hi', take (nat nargs) args')"
      and hi': "hi' \<le> argmax" by (auto simp del: packed_fields_simps)
    have "cmdline_decode procargs argmax = (hi', Returns (take (nat nargs) args'))"
      using False assms(7) sl P4 skip loop by (simp add: cmdline_decode_def Let_def)
    then show ?thesis using hi' args'_def by simp
  qed
qed

lemma takeWhile_field:
  "0 \<notin> set c \<Longrightarrow> takeWhile (\<lambda>x. x \<noteq> 0) (c @ (0 :: byte) # R) = c"
  by (induction c) auto

lemma environ_skip_scan:
  assumes "0 \<notin> set c2" and "buf = A @ c2 @ R" and "q = length A"
    and "q + length c2 \<le> arg_end" and "0 < n" and "q \<le> hi"
  shows "environ_skip_args buf arg_end q n hi
           = environ_skip_args buf arg_end (q + length c2) n (max hi (q + length c2))"
  using assms
proof (induction c2 arbitrary: A q hi)
  case Nil
  then show ?case by (simp add: max_absorb1)
next
  case (Cons c c2)
  have lt: "q < arg_end" using Cons.prems(4) by simp
  have pk: "peek buf q = Some c" using Cons.prems(2,3) peek_append [of A c "c2 @ R"] by simp
  have nz: "c \<noteq> 0" using Cons.prems(1) by auto
  have step: "environ_skip_args buf arg_end q n hi
                = environ_skip_args buf arg_end (Suc q) n (max hi (Suc q))"
    using lt pk nz Cons.prems(5) by (subst environ_skip_args.simps) simp
  have "environ_skip_args buf arg_end (Suc q) n (max hi (Suc q))
          = environ_skip_args buf arg_end (Suc q + length c2) n
              (max (max hi (Suc q)) (Suc q + length c2))"
  proof (rule Cons.IH)
    show "0 \<notin> set c2" using Cons.prems(1) by simp
    show "buf = (A @ [c]) @ c2 @ R" using Cons.prems(2) by simp
    show "Suc q = length (A @ [c])" using Cons.prems(3) by simp
    show "Suc q + length c2 \<le> arg_end" using Cons.prems(4) by simp
    show "0 < n" by (rule Cons.prems(5))
    show "Suc q \<le> max hi (Suc q)" by simp
  qed
  moreover have "max (max hi (Suc q)) (Suc q + length c2) = max hi (q + length (c # c2))"
    by simp
  ultimately show ?case using step by simp
qed

lemma environ_skip_field_end:
  assumes "buf = A @ [0] @ R" and "p = length A" and "p < arg_end" and "0 < n"
  shows "environ_skip_args buf arg_end p n hi
           = environ_skip_args buf arg_end (Suc p) (n - 1) (max hi (Suc p))"
proof -
  have "peek buf p = Some 0" using assms(1,2) peek_append [of A 0 R] by simp
  then show ?thesis using assms(3,4) by (subst environ_skip_args.simps) simp
qed

lemma environ_skip_exhausts:
  assumes "\<forall>a\<in>set fs. 0 \<notin> set a" and "0 \<notin> set tail"
    and "buf = A @ packed_fields fs @ tail @ R" and "p = length A"
    and "arg_end = p + length (packed_fields fs) + length tail"
    and "p \<le> hi" and "hi \<le> arg_end" and "int (length fs) < n"
  shows "\<exists>hi'. environ_skip_args buf arg_end p n hi = Some (hi', arg_end) \<and> hi' \<le> arg_end"
  using assms
proof (induction fs arbitrary: A p n hi)
  case Nil
  have n: "0 < n" using Nil.prems(8) by simp
  have "environ_skip_args buf arg_end p n hi
          = environ_skip_args buf arg_end (p + length tail) n (max hi (p + length tail))"
    using Nil.prems n by (intro environ_skip_scan [where A = A and R = R]) simp_all
  also have "\<dots> = Some (max hi (p + length tail), p + length tail)"
    using Nil.prems(5) by (subst environ_skip_args.simps) simp
  finally show ?case using Nil.prems(5,7) by simp
next
  case (Cons f fs)
  have n: "0 < n" using Cons.prems(8) by simp
  have f0: "0 \<notin> set f" using Cons.prems(1) by simp
  have buf: "buf = A @ f @ [0] @ (packed_fields fs @ tail @ R)"
    using Cons.prems(3) by simp
  have in_range: "p + length f < arg_end" using Cons.prems(5) by simp
  have scan: "environ_skip_args buf arg_end p n hi
          = environ_skip_args buf arg_end (p + length f) n (max hi (p + length f))"
    using f0 buf Cons.prems(4,6) in_range n
    by (intro environ_skip_scan [where A = A and R = "[0] @ packed_fields fs @ tail @ R"])
       simp_all
  have fin: "environ_skip_args buf arg_end (p + length f) n (max hi (p + length f))
          = environ_skip_args buf arg_end (Suc (p + length f)) (n - 1)
              (max (max hi (p + length f)) (Suc (p + length f)))"
    using buf Cons.prems(4) in_range n
    by (intro environ_skip_field_end [where A = "A @ f" and R = "packed_fields fs @ tail @ R"])
       simp_all
  have "\<exists>hi'. environ_skip_args buf arg_end (Suc (p + length f)) (n - 1)
              (max (max hi (p + length f)) (Suc (p + length f)))
           = Some (hi', arg_end) \<and> hi' \<le> arg_end"
  proof (rule Cons.IH)
    show "\<forall>a\<in>set fs. 0 \<notin> set a" using Cons.prems(1) by simp
    show "0 \<notin> set tail" by (rule Cons.prems(2))
    show "buf = (A @ f @ [0]) @ packed_fields fs @ tail @ R" using buf by simp
    show "Suc (p + length f) = length (A @ f @ [0])" using Cons.prems(4) by simp
    show "arg_end = Suc (p + length f) + length (packed_fields fs) + length tail"
      using Cons.prems(5) by simp
    show "Suc (p + length f) \<le> max (max hi (p + length f)) (Suc (p + length f))" by simp
    show "max (max hi (p + length f)) (Suc (p + length f)) \<le> arg_end"
      using Cons.prems(7) in_range by simp
    show "int (length fs) < n - 1" using Cons.prems(8) by simp
  qed
  then show ?case using scan fin by simp
qed

lemma memchr0_path:
  assumes "length hdr = 4" and "0 \<notin> set path" and "5 + length path \<le> argmax"
  shows "memchr0 (hdr @ path @ [0] @ X) 4 (ptr_diff argmax 4)
           = Some (5 + length path, Some (4 + length path))"
proof -
  have pd: "ptr_diff argmax 4 = argmax - 4" using assms(3) by (simp add: ptr_diff_def)
  have dr: "drop 4 (hdr @ path @ [0] @ X) = path @ [0] @ X" using assms(1) by simp
  have tk: "take (argmax - 4) (path @ [0] @ X)
              = path @ 0 # take (argmax - 4 - Suc (length path)) X"
    using assms(3) by (simp add: take_Cons')
  show ?thesis
    unfolding memchr0_def pd dr tk by (simp add: takeWhile_field [OF assms(2)] Let_def)
qed


text \<open>
  On every such buffer whose \<open>argc\<close> exceeds the number of fields, the environment decoder
  reads the byte at the declared end and then one byte of the empty block it allocated
  (when \<open>calloc(1, 0)\<close> returns a block).
\<close>

lemma environ_decode_truncated:
  assumes "length hdr = 4" and "0 \<notin> set path" and "\<forall>a\<in>set args. 0 \<notin> set a"
    and "0 \<notin> set tail"
    and "procargs = hdr @ path @ [0] @ packed_fields args @ tail @ rest"
    and "argmax = 5 + length path + length (packed_fields args) + length tail"
    and "read_nargs procargs = Some nargs"
    and "int (length (dropWhile (\<lambda>a. a = []) args)) < nargs"
    and "calloc_ok 0"
  shows "environ_decode calloc_ok procargs argmax = (Suc argmax, Overread)"
proof -
  define j where "j = length (takeWhile (\<lambda>a. a = []) args)"
  define args' where "args' = dropWhile (\<lambda>a. a = []) args"
  define P where "P = 5 + length path"
  have packed: "packed_fields args = replicate j 0 @ packed_fields args'"
    unfolding j_def args'_def by (rule packed_fields_leading)
  have amax: "argmax = P + j + length (packed_fields args') + length tail"
    using assms(6) packed by (simp add: P_def)
  have Pmax: "5 + length path \<le> argmax" using assms(6) by simp
  have mc: "memchr0 procargs 4 (ptr_diff argmax 4) = Some (P, Some (4 + length path))"
    unfolding assms(5) P_def using assms(1,2) Pmax by (rule memchr0_path)
  have ne: "4 + length path \<noteq> argmax" using Pmax by simp
  have args'0: "\<forall>a\<in>set args'. 0 \<notin> set a"
    using assms(3) unfolding args'_def by (meson set_dropWhileD)
  have buf1: "procargs = (hdr @ path) @ replicate (Suc j) 0
                @ (packed_fields args' @ tail @ rest)"
    using assms(5) packed by simp
  have lenA: "4 + length path = length (hdr @ path)" using assms(1) by simp
  have nz: "4 + length path + Suc j < argmax \<longrightarrow>
      packed_fields args' @ tail @ rest \<noteq> [] \<and> hd (packed_fields args' @ tail @ rest) \<noteq> 0"
  proof
    assume "4 + length path + Suc j < argmax"
    then have "0 < length (packed_fields args') + length tail" using amax by (simp add: P_def)
    with assms(3,4) args'_def show "packed_fields args' @ tail @ rest \<noteq> []
        \<and> hd (packed_fields args' @ tail @ rest) \<noteq> 0"
      by (intro after_padding_nonzero [where args = args]) simp_all
  qed
  have b1: "4 + length path + Suc j \<le> argmax" using amax by (simp add: P_def)
  have b2: "4 + length path \<le> max 4 P" by (simp add: P_def)
  have b3: "max 4 P \<le> argmax" using Pmax by (simp add: P_def)
  from skip_nuls_zeros [OF buf1 lenA b1 nz b2 b3]
  obtain hi1 where skip: "skip_nuls procargs argmax (4 + length path) (max 4 P)
                            = Some (hi1, 4 + length path + Suc j)"
    and hi1: "4 + length path + Suc j \<le> hi1" "hi1 \<le> argmax" by blast
  have pos: "4 + length path + Suc j = P + j" by (simp add: P_def)
  have buf2: "procargs = (hdr @ path @ [0] @ replicate j 0) @ packed_fields args' @ tail @ rest"
    using assms(5) packed by simp
  have lenA2: "P + j = length (hdr @ path @ [0] @ replicate j 0)"
    using assms(1) by (simp add: P_def)
  have amax2: "argmax = (P + j) + length (packed_fields args') + length tail"
    using amax by simp
  have c1: "P + j \<le> hi1" using hi1(1) pos by simp
  have c2: "int (length args') < nargs" using assms(8) args'_def by simp
  from environ_skip_exhausts [OF args'0 assms(4) buf2 lenA2 amax2 c1 hi1(2) c2]
  obtain hi2 where skipargs: "environ_skip_args procargs argmax (P + j) nargs hi1
                                = Some (hi2, argmax)"
    and hi2: "hi2 \<le> argmax" by blast
  have len: "argmax \<le> length procargs" using assms(1,5,6) by simp
  have pd0: "ptr_diff argmax argmax = 0" by (simp add: ptr_diff_def)
  have copy: "(case environ_copy procargs argmax argmax argmax [] hi2 of
                 None \<Rightarrow> (Suc (length procargs), Overread)
               | Some (hi3, arg_ptr3, procenv) \<Rightarrow>
                   if arg_ptr3 - argmax + 1 \<le> length procenv
                   then (hi3, Returns (take (arg_ptr3 - argmax + 1) procenv))
                   else (hi3, Overread)) = (Suc argmax, Overread)"
  proof (cases "peek procargs argmax")
    case None
    then have "length procargs = argmax" using len by (simp add: peek_def split: if_splits)
    moreover have "environ_copy procargs argmax argmax argmax [] hi2 = None"
      using None by (subst environ_copy.simps) simp
    ultimately show ?thesis by simp
  next
    case (Some c)
    then have "environ_copy procargs argmax argmax argmax [] hi2
                 = Some (max hi2 (Suc argmax), argmax, [])"
      by (subst environ_copy.simps) simp
    then show ?thesis using hi2 by (simp add: max_absorb2)
  qed
  have skip': "skip_nuls procargs argmax (4 + length path) (max 4 P) = Some (hi1, P + j)"
    using skip pos by simp
  show ?thesis
    using assms(7,9) mc ne skip' skipargs pd0 copy
    by (simp add: environ_decode_def)
qed

text \<open>The buffer of 11 declared bytes above is one of these buffers.\<close>

lemma environ_decode_truncated_example:
  "environ_decode (\<lambda>n. True) [5,0,0,0, 0x2F,0x78,0, 0x61,0, 0x62,0, 0x41,0x41] 11
     = (12, Overread)"
proof -
  have rn: "read_nargs ([5,0,0,0] @ [0x2F,0x78] @ [0] @ packed_fields [[0x61], [0x62]] @ []
              @ [0x41,0x41]) = Some 5"
    by (simp add: read_nargs_def)
  from environ_decode_truncated
    [of "[5,0,0,0]" "[0x2F,0x78]" "[[0x61], [0x62]]" "[]" _ "[0x41,0x41]" 11 5 "\<lambda>n. True",
     OF _ _ _ _ refl _ rn]
  show ?thesis by simp
qed

lemma cmdline_decode_fields_example:
  "\<exists>hi. cmdline_decode [5,0,0,0, 0x2F,0x78,0, 0x61,0, 0x62,0, 0x41,0x41] 11
          = (hi, Returns [[0x61], [0x62]]) \<and> hi \<le> 11"
proof -
  have rn: "read_nargs ([5,0,0,0] @ [0x2F,0x78] @ [0] @ packed_fields [[0x61], [0x62]] @ []
              @ [0x41,0x41]) = Some 5"
    by (simp add: read_nargs_def)
  from cmdline_decode_fields
    [of "[5,0,0,0]" "[0x2F,0x78]" "[[0x61], [0x62]]" "[]" _ "[0x41,0x41]" 11 5,
     OF _ _ _ _ refl _ rn]
  show ?thesis by simp
qed

end
